theory Spec2Isabelle
  imports Complex_Main
begin

section \<open>Data model (types/schemas)\<close>

text \<open>
  The interfaces \<^verbatim>\<open>Unit\<close>, \<^verbatim>\<open>ConversionEquation\<close> and \<^verbatim>\<open>UnitGroup\<close> of the schema
  file. JavaScript strings are modelled as \<^typ>\<open>string\<close>; a JavaScript \<^verbatim>\<open>number\<close> that the
  schema types as a multiplier is idealised as a \<^typ>\<open>real\<close> (no rounding). The field
  \<^verbatim>\<open>unitGroupId\<close> is absent on a unit that is not classified yet, hence an option.
\<close>

record Unit =
  unit_id :: string
  symbol :: string
  unit_name :: string
  abbreviations :: "string list"
  unitGroupId :: "string option"

record ConversionEquation =
  conv_id :: string
  fromUnitId :: string
  toUnitId :: string
  multiplier :: real
  equation :: string
  conv_description :: string

record UnitGroup =
  group_id :: string
  group_name :: string
  group_description :: string
  unitIds :: "string list"
  conversions :: "ConversionEquation list"

section \<open>String helpers of the JavaScript runtime\<close>

text \<open>
  \<^verbatim>\<open>String.prototype.toLowerCase\<close> on the ASCII range: the letters A--Z are mapped to
  a--z, every other character is left alone.
\<close>

definition toLowerCase_char :: "char \<Rightarrow> char" where
  "toLowerCase_char c =
     (let n = (of_char c :: nat) in if 65 \<le> n \<and> n \<le> 90 then char_of (n + 32) else c)"

definition toLowerCase :: "string \<Rightarrow> string" where
  "toLowerCase s = map toLowerCase_char s"

section \<open>linkUnits: findUnitBySymbol\<close>

text \<open>
  \<^verbatim>\<open>
  function findUnitBySymbol(symbol, units) {
      if (!symbol) return null;
      return units.find(u => u.symbol === symbol ||
          u.symbol.toLowerCase() === symbol.toLowerCase() ||
          u.abbreviations.some(abbr => abbr === symbol ||
              abbr.toLowerCase() === symbol.toLowerCase())) || null;
  }
  \<close>
  The predicate handed to \<^verbatim>\<open>find\<close> is kept as a function of its own.
\<close>

definition abbr_matches :: "string \<Rightarrow> string \<Rightarrow> bool" where
  "abbr_matches sref abbr \<longleftrightarrow> abbr = sref \<or> toLowerCase abbr = toLowerCase sref"

definition unit_matches :: "string \<Rightarrow> Unit \<Rightarrow> bool" where
  "unit_matches sref u \<longleftrightarrow>
     symbol u = sref \<or> toLowerCase (symbol u) = toLowerCase sref \<or>
     list_ex (abbr_matches sref) (abbreviations u)"

definition findUnitBySymbol :: "string \<Rightarrow> Unit list \<Rightarrow> Unit option" where
  "findUnitBySymbol sref units = (if sref = [] then None else find (unit_matches sref) units)"

text \<open>
  The four-tier search the specification describes, written from its words: each tier
  scans the whole list before the next tier is tried.
\<close>

definition symbol_exact :: "string \<Rightarrow> Unit \<Rightarrow> bool" where
  "symbol_exact sref u \<longleftrightarrow> symbol u = sref"

definition symbol_nocase :: "string \<Rightarrow> Unit \<Rightarrow> bool" where
  "symbol_nocase sref u \<longleftrightarrow> toLowerCase (symbol u) = toLowerCase sref"

definition abbr_exact :: "string \<Rightarrow> Unit \<Rightarrow> bool" where
  "abbr_exact sref u \<longleftrightarrow> sref \<in> set (abbreviations u)"

definition abbr_nocase :: "string \<Rightarrow> Unit \<Rightarrow> bool" where
  "abbr_nocase sref u \<longleftrightarrow> toLowerCase sref \<in> set (map toLowerCase (abbreviations u))"

definition or_else :: "'a option \<Rightarrow> 'a option \<Rightarrow> 'a option" where
  "or_else a b = (case a of Some x \<Rightarrow> Some x | None \<Rightarrow> b)"

definition findUnitBySymbol_tiered :: "string \<Rightarrow> Unit list \<Rightarrow> Unit option" where
  "findUnitBySymbol_tiered sref units =
     or_else (find (symbol_exact sref) units)
       (or_else (find (symbol_nocase sref) units)
          (or_else (find (abbr_exact sref) units) (find (abbr_nocase sref) units)))"

text \<open>Case-insensitive agreement with the symbol or with one of the abbreviations.\<close>

definition matches_nocase :: "string \<Rightarrow> Unit \<Rightarrow> bool" where
  "matches_nocase sref u \<longleftrightarrow> symbol_nocase sref u \<or> abbr_nocase sref u"

definition gpm_lower :: Unit where
  "gpm_lower = \<lparr>unit_id = ''u1'', symbol = ''gpm'', unit_name = ''gram per metre'',
     abbreviations = [], unitGroupId = None\<rparr>"

definition gpm_upper :: Unit where
  "gpm_upper = \<lparr>unit_id = ''u2'', symbol = ''GPM'', unit_name = ''gallons per minute'',
     abbreviations = [''gal/min''], unitGroupId = None\<rparr>"

section \<open>Closure engine: generateCompleteConversions\<close>

text \<open>
  The multiplier table of the source is a \<^verbatim>\<open>Map\<close> from strings to numbers. A pair of unit ids
  is turned into its key by the template literal that puts a fixed three-character
  separator between the two ids; the separator is given here by the bytes of its UTF-8
  encoding in the source file. The table is modelled as a partial function on keys, with
  \<^verbatim>\<open>set\<close> as function update, \<^verbatim>\<open>get\<close> as application and \<^verbatim>\<open>has\<close> as definedness.
\<close>

definition separator :: string where
  "separator = [CHR 0xC3, CHR 0xA2, CHR 0xE2, CHR 0x80, CHR 0xA0, CHR 0xE2, CHR 0x80, CHR 0x99]"

definition pair_key :: "string \<Rightarrow> string \<Rightarrow> string" where
  "pair_key a b = a @ separator @ b"

type_synonym table = "string \<Rightarrow> real option"

text \<open>
  \<^verbatim>\<open>
  for (const conv of existingConversions) {
    const key = `${conv.fromUnitId}<sep>${conv.toUnitId}`;
    multipliers.set(key, conv.multiplier);
  }
  for (const unit of units) {
    multipliers.set(`${unit.id}<sep>${unit.id}`, 1.0);
  }
  \<close>
\<close>

definition direct_step :: "table \<Rightarrow> ConversionEquation \<Rightarrow> table" where
  "direct_step m conv = m(pair_key (fromUnitId conv) (toUnitId conv) \<mapsto> multiplier conv)"

definition identity_step :: "table \<Rightarrow> Unit \<Rightarrow> table" where
  "identity_step m u = m(pair_key (unit_id u) (unit_id u) \<mapsto> 1)"

definition seed_direct :: "ConversionEquation list \<Rightarrow> table" where
  "seed_direct existing = foldl direct_step Map.empty existing"

definition seed_table :: "Unit list \<Rightarrow> ConversionEquation list \<Rightarrow> table" where
  "seed_table units existing = foldl identity_step (seed_direct existing) units"

text \<open>
  The body of the innermost loop, for the intermediate unit \<open>k\<close> and the pair \<open>i\<close>, \<open>j\<close>:
  \<^verbatim>\<open>
  const ikMult = multipliers.get(ikKey);
  const kjMult = multipliers.get(kjKey);
  if (ikMult !== undefined && kjMult !== undefined) {
    const transitiveMultiplier = ikMult * kjMult;
    if (!multipliers.has(ijKey)) {
      multipliers.set(ijKey, transitiveMultiplier);
    }
  }
  \<close>
\<close>

definition relax :: "Unit \<Rightarrow> Unit \<Rightarrow> table \<Rightarrow> Unit \<Rightarrow> table" where
  "relax k i m j =
     (case m (pair_key (unit_id i) (unit_id k)) of
        None \<Rightarrow> m
      | Some ikMult \<Rightarrow>
          (case m (pair_key (unit_id k) (unit_id j)) of
             None \<Rightarrow> m
           | Some kjMult \<Rightarrow>
               (if m (pair_key (unit_id i) (unit_id j)) = None
                then m(pair_key (unit_id i) (unit_id j) \<mapsto> ikMult * kjMult)
                else m)))"

text \<open>The three nested loops \<^verbatim>\<open>for k\<close>, \<^verbatim>\<open>for i\<close>, \<^verbatim>\<open>for j\<close>, each over the unit list.\<close>

definition loop_j :: "Unit list \<Rightarrow> Unit \<Rightarrow> table \<Rightarrow> Unit \<Rightarrow> table" where
  "loop_j units k m i = foldl (relax k i) m units"

definition loop_i :: "Unit list \<Rightarrow> table \<Rightarrow> Unit \<Rightarrow> table" where
  "loop_i units m k = foldl (loop_j units k) m units"

definition loop_k :: "Unit list \<Rightarrow> table \<Rightarrow> table" where
  "loop_k units m = foldl (loop_i units) m units"

definition closure_table :: "Unit list \<Rightarrow> ConversionEquation list \<Rightarrow> table" where
  "closure_table units existing = loop_k units (seed_table units existing)"

text \<open>
  The run of the three loops as one sequence of steps: the triples \<open>(k, i, j)\<close> in the
  order in which the loops visit them, and the table after the first \<open>n\<close> steps.
\<close>

definition triples :: "Unit list \<Rightarrow> (Unit \<times> Unit \<times> Unit) list" where
  "triples units =
     concat (map (\<lambda>k. concat (map (\<lambda>i. map (\<lambda>j. (k, i, j)) units) units)) units)"

definition relax_triple :: "table \<Rightarrow> Unit \<times> Unit \<times> Unit \<Rightarrow> table" where
  "relax_triple m t = (case t of (k, i, j) \<Rightarrow> relax k i m j)"


text \<open>
  The output loops. \<^verbatim>\<open>generateUUID\<close> draws on \<^verbatim>\<open>Math.random\<close> and the template literal
  \<^verbatim>\<open>`x * ${multiplier}`\<close> on the number formatting of the runtime: both are parameters, \<open>uuid n\<close>
  being the identifier handed out by the \<open>n\<close>-th call of this run, \<open>show_number\<close> the decimal
  text of a number. The accumulator is the output array with the number of identifiers
  drawn so far.
  \<^verbatim>\<open>
  for (const fromUnit of units) {
    for (const toUnit of units) {
      if (fromUnit.id === toUnit.id) continue;
      const multiplier = multipliers.get(key);
      if (multiplier !== undefined) {
        const existing = existingConversions.find(
          c => c.fromUnitId === fromUnit.id && c.toUnitId === toUnit.id);
        if (existing) { allConversions.push(existing); }
        else { allConversions.push({ id: generateUUID(), ... }); }
      }
    }
  }
  \<close>
\<close>

definition same_pair :: "string \<Rightarrow> string \<Rightarrow> ConversionEquation \<Rightarrow> bool" where
  "same_pair f t c \<longleftrightarrow> fromUnitId c = f \<and> toUnitId c = t"

definition new_conversion ::
  "(nat \<Rightarrow> string) \<Rightarrow> (real \<Rightarrow> string) \<Rightarrow> nat \<Rightarrow> Unit \<Rightarrow> Unit \<Rightarrow> real \<Rightarrow> ConversionEquation" where
  "new_conversion uuid show_number n fromUnit toUnit mult =
     \<lparr>conv_id = uuid n, fromUnitId = unit_id fromUnit, toUnitId = unit_id toUnit,
      multiplier = mult, equation = ''x * '' @ show_number mult,
      conv_description = symbol fromUnit @ '' to '' @ symbol toUnit\<rparr>"

definition emit ::
  "(nat \<Rightarrow> string) \<Rightarrow> (real \<Rightarrow> string) \<Rightarrow> table \<Rightarrow> ConversionEquation list \<Rightarrow> Unit \<Rightarrow>
   ConversionEquation list \<times> nat \<Rightarrow> Unit \<Rightarrow> ConversionEquation list \<times> nat" where
  "emit uuid show_number m existing fromUnit acc toUnit =
     (if unit_id fromUnit = unit_id toUnit then acc
      else case m (pair_key (unit_id fromUnit) (unit_id toUnit)) of
        None \<Rightarrow> acc
      | Some mult \<Rightarrow>
          (case find (same_pair (unit_id fromUnit) (unit_id toUnit)) existing of
             Some e \<Rightarrow> (fst acc @ [e], snd acc)
           | None \<Rightarrow>
               (fst acc @ [new_conversion uuid show_number (snd acc) fromUnit toUnit mult],
                Suc (snd acc))))"

definition emit_from ::
  "(nat \<Rightarrow> string) \<Rightarrow> (real \<Rightarrow> string) \<Rightarrow> table \<Rightarrow> ConversionEquation list \<Rightarrow> Unit list \<Rightarrow>
   ConversionEquation list \<times> nat \<Rightarrow> Unit \<Rightarrow> ConversionEquation list \<times> nat" where
  "emit_from uuid show_number m existing units acc fromUnit =
     foldl (emit uuid show_number m existing fromUnit) acc units"

definition emit_all ::
  "(nat \<Rightarrow> string) \<Rightarrow> (real \<Rightarrow> string) \<Rightarrow> table \<Rightarrow> ConversionEquation list \<Rightarrow> Unit list \<Rightarrow>
   ConversionEquation list \<times> nat" where
  "emit_all uuid show_number m existing units =
     foldl (emit_from uuid show_number m existing units) ([], 0) units"

definition generateCompleteConversions ::
  "(nat \<Rightarrow> string) \<Rightarrow> (real \<Rightarrow> string) \<Rightarrow> Unit list \<Rightarrow> ConversionEquation list \<Rightarrow>
   ConversionEquation list" where
  "generateCompleteConversions uuid show_number units existingConversions =
     (if length units < 2 then existingConversions
      else fst (emit_all uuid show_number (closure_table units existingConversions)
                  existingConversions units))"

section \<open>Consistency validator: validateConversions\<close>

text \<open>
  \<^verbatim>\<open>
  for (const conv of conversions) {
    const reverse = conversions.find(
      c => c.fromUnitId === conv.toUnitId && c.toUnitId === conv.fromUnitId);
    if (reverse) {
      const product = conv.multiplier * reverse.multiplier;
      if (Math.abs(product - 1.0) < 0.01) { valid++; }
      else { console.warn(`Inverse mismatch: ...`); issues++; }
    } else { console.warn(`Missing reverse: ...`); issues++; }
  }
  return { valid, issues };
  \<close>
  The two counters are a record; the lines written by \<^verbatim>\<open>console.warn\<close> are kept as a list
  of warnings beside them.
\<close>

datatype warning =
  InverseMismatch string string real
  | MissingReverse string string

record counts =
  valid :: nat
  issues :: nat

definition reverse_of :: "ConversionEquation list \<Rightarrow> ConversionEquation \<Rightarrow> ConversionEquation option" where
  "reverse_of convs conv =
     find (same_pair (toUnitId conv) (fromUnitId conv)) convs"

definition validate_step ::
  "ConversionEquation list \<Rightarrow> counts \<times> warning list \<Rightarrow> ConversionEquation \<Rightarrow> counts \<times> warning list" where
  "validate_step convs st conv =
     (case reverse_of convs conv of
        Some reverse \<Rightarrow>
          (let product = multiplier conv * multiplier reverse in
           if \<bar>product - 1\<bar> < 0.01
           then ((fst st)\<lparr>valid := valid (fst st) + 1\<rparr>, snd st)
           else ((fst st)\<lparr>issues := issues (fst st) + 1\<rparr>,
                 snd st @ [InverseMismatch (fromUnitId conv) (toUnitId conv) product]))
      | None \<Rightarrow>
          ((fst st)\<lparr>issues := issues (fst st) + 1\<rparr>,
           snd st @ [MissingReverse (fromUnitId conv) (toUnitId conv)]))"

definition validateConversions :: "ConversionEquation list \<Rightarrow> counts \<times> warning list" where
  "validateConversions convs =
     foldl (validate_step convs) (\<lparr>valid = 0, issues = 0\<rparr>, []) convs"

section \<open>ensureCompleteConversions: the pass over one group\<close>

text \<open>
  \<^verbatim>\<open>
  const groupUnits = allUnits.filter(u => group.unitIds.includes(u.id));
  const originalCount = group.conversions.length;
  const expectedCount = groupUnits.length * (groupUnits.length - 1);
  if (originalCount < expectedCount) {
    const completeConversions = generateCompleteConversions(groupUnits, group.conversions);
    group.conversions = completeConversions;
    const { valid, issues } = validateConversions(completeConversions);
    if (issues > 0) console.log(...);
  } else { console.log('Already complete'); }
  \<close>
  The result is the group as it is written back to the registry file, with the outcome of
  the validation (none when the group is left alone), which the source only prints.
\<close>

definition groupUnits_of :: "Unit list \<Rightarrow> UnitGroup \<Rightarrow> Unit list" where
  "groupUnits_of allUnits g = filter (\<lambda>u. unit_id u \<in> set (unitIds g)) allUnits"

definition expectedCount :: "Unit list \<Rightarrow> nat" where
  "expectedCount groupUnits = length groupUnits * (length groupUnits - 1)"

definition ensure_group ::
  "(nat \<Rightarrow> string) \<Rightarrow> (real \<Rightarrow> string) \<Rightarrow> Unit list \<Rightarrow> UnitGroup \<Rightarrow>
   UnitGroup \<times> (counts \<times> warning list) option" where
  "ensure_group uuid show_number allUnits g =
     (let groupUnits = groupUnits_of allUnits g in
      if length (conversions g) < expectedCount groupUnits
      then (let completeConversions =
                  generateCompleteConversions uuid show_number groupUnits (conversions g)
            in (g\<lparr>conversions := completeConversions\<rparr>,
                Some (validateConversions completeConversions)))
      else (g, None))"




definition edge :: "string \<Rightarrow> string \<Rightarrow> string \<Rightarrow> real \<Rightarrow> ConversionEquation" where
  "edge ident f t mult =
     \<lparr>conv_id = ident, fromUnitId = f, toUnitId = t, multiplier = mult,
      equation = ''x'', conv_description = []\<rparr>"

definition unit_of :: "string \<Rightarrow> Unit" where
  "unit_of ident =
     \<lparr>unit_id = ident, symbol = ident, unit_name = ident, abbreviations = [],
      unitGroupId = None\<rparr>"

text \<open>
  A sequence of identifiers and a number format for the closed examples below: the
  \<open>n\<close>-th identifier is \<open>n\<close> letters long, and every number is printed as the same text.
\<close>

definition uuid_seq :: "nat \<Rightarrow> string" where
  "uuid_seq n = replicate n (CHR ''u'')"

definition show_plain :: "real \<Rightarrow> string" where
  "show_plain r = ''n''"

definition pair_of :: "ConversionEquation \<Rightarrow> string \<times> string" where
  "pair_of c = (fromUnitId c, toUnitId c)"

section \<open>Conversion collector: validateConversion and the merge loop\<close>

text \<open>
  What the Oracle returns is parsed JSON that nothing has checked yet, so it is modelled
  as a JSON value. A number may be infinite (the text \<^verbatim>\<open>1e999\<close> parses to
  \<^verbatim>\<open>Infinity\<close>); an object is the list of its properties. Reading a property that an
  object does not have gives \<^verbatim>\<open>undefined\<close>, here \<open>None\<close>; reading a property of
  \<^verbatim>\<open>null\<close> throws a \<^verbatim>\<open>TypeError\<close>.
\<close>

datatype jsnum = Finite real | PosInfinity | NegInfinity | NaN

datatype json =
  JNull
  | JBool bool
  | JNum jsnum
  | JStr string
  | JArr "json list"
  | JObj "(string \<times> json) list"

datatype js_error = TypeError

fun field_of :: "json \<Rightarrow> string \<Rightarrow> json option" where
  "field_of (JObj kvs) name = map_of kvs name"
| "field_of v name = None"

text \<open>Truthiness of a value, \<open>None\<close> being \<^verbatim>\<open>undefined\<close>.\<close>

fun truthy :: "json option \<Rightarrow> bool" where
  "truthy None = False"
| "truthy (Some JNull) = False"
| "truthy (Some (JBool b)) = b"
| "truthy (Some (JNum (Finite r))) = (r \<noteq> 0)"
| "truthy (Some (JNum NaN)) = False"
| "truthy (Some (JNum PosInfinity)) = True"
| "truthy (Some (JNum NegInfinity)) = True"
| "truthy (Some (JStr s)) = (s \<noteq> [])"
| "truthy (Some (JArr xs)) = True"
| "truthy (Some (JObj kvs)) = True"

text \<open>\<^verbatim>\<open>typeof v === 'number'\<close>, \<^verbatim>\<open>n <= 0\<close> and \<^verbatim>\<open>isFinite(n)\<close>.\<close>

fun is_number :: "json option \<Rightarrow> bool" where
  "is_number (Some (JNum n)) = True"
| "is_number v = False"

fun le_zero :: "jsnum \<Rightarrow> bool" where
  "le_zero (Finite r) = (r \<le> 0)"
| "le_zero NegInfinity = True"
| "le_zero PosInfinity = False"
| "le_zero NaN = False"

fun isFinite :: "jsnum \<Rightarrow> bool" where
  "isFinite (Finite r) = True"
| "isFinite n = False"

text \<open>
  \<^verbatim>\<open>conv.equation.includes('x')\<close> and \<^verbatim>\<open>conv.equation.trim()\<close>, on a value that is
  already known to be truthy. A string has both methods. An array has \<^verbatim>\<open>includes\<close>
  (membership of the string \<^verbatim>\<open>'x'\<close>) but no \<^verbatim>\<open>trim\<close>; any other value has neither,
  and the call throws. \<^verbatim>\<open>trim\<close> removes the ASCII white space at both ends.
\<close>

fun includes_x :: "json option \<Rightarrow> js_error + bool" where
  "includes_x (Some (JStr s)) = Inr (CHR ''x'' \<in> set s)"
| "includes_x (Some (JArr xs)) = Inr (JStr ''x'' \<in> set xs)"
| "includes_x v = Inl TypeError"

definition is_space :: "char \<Rightarrow> bool" where
  "is_space c \<longleftrightarrow> c \<in> set [CHR '' '', CHR 0x09, CHR 0x0A, CHR 0x0B, CHR 0x0C, CHR 0x0D]"

definition trim :: "string \<Rightarrow> string" where
  "trim s = rev (dropWhile is_space (rev (dropWhile is_space s)))"

fun trim_js :: "json option \<Rightarrow> js_error + string" where
  "trim_js (Some (JStr s)) = Inr (trim s)"
| "trim_js v = Inl TypeError"

text \<open>
  \<^verbatim>\<open>
  function validateConversion(conv, fromUnit, allUnits) {
    if (!conv.from || !conv.to || typeof conv.multiplier !== 'number' || !conv.equation)
        return null;
    if (conv.from !== fromUnit.symbol || !allUnits.find(u => u.symbol === conv.to))
        return null;
    if (conv.multiplier <= 0 || !isFinite(conv.multiplier) || !conv.equation.includes('x'))
        return null;
    return { from: conv.from, to: conv.to, multiplier: conv.multiplier,
             equation: conv.equation.trim() };
  }
  \<close>
  The result is \<open>Inr None\<close> for \<^verbatim>\<open>null\<close>, \<open>Inr (Some v)\<close> for the returned object and
  \<open>Inl TypeError\<close> where the source throws.
\<close>

record valid_conversion =
  v_from :: string
  v_to :: string
  v_multiplier :: real
  v_equation :: string

definition validateConversion ::
  "json \<Rightarrow> Unit \<Rightarrow> Unit list \<Rightarrow> js_error + valid_conversion option" where
  "validateConversion conv fromUnit allUnits =
     (if conv = JNull then Inl TypeError
      else if \<not> truthy (field_of conv ''from'') \<or> \<not> truthy (field_of conv ''to'') \<or>
              \<not> is_number (field_of conv ''multiplier'') \<or> \<not> truthy (field_of conv ''equation'')
      then Inr None
      else if field_of conv ''from'' \<noteq> Some (JStr (symbol fromUnit)) \<or>
              find (\<lambda>u. Some (JStr (symbol u)) = field_of conv ''to'') allUnits = None
      then Inr None
      else case field_of conv ''multiplier'' of
        Some (JNum n) \<Rightarrow>
          (if le_zero n \<or> \<not> isFinite n then Inr None
           else case includes_x (field_of conv ''equation'') of
             Inl err \<Rightarrow> Inl err
           | Inr has_x \<Rightarrow>
               (if \<not> has_x then Inr None
                else case trim_js (field_of conv ''equation'') of
                  Inl err \<Rightarrow> Inl err
                | Inr eq \<Rightarrow>
                    Inr (Some \<lparr>v_from = symbol fromUnit,
                               v_to = (case field_of conv ''to'' of Some (JStr s) \<Rightarrow> s | _ \<Rightarrow> []),
                               v_multiplier = (case n of Finite r \<Rightarrow> r | _ \<Rightarrow> 0),
                               v_equation = eq\<rparr>)))
      | _ \<Rightarrow> Inr None)"

text \<open>
  The body of the merge loop for one validated edge of \<open>fromUnit\<close>:
  \<^verbatim>\<open>
  const toUnit = groupUnits.find(u => u.symbol === convData.to);
  if (!toUnit || group.conversions.some(c => c.fromUnitId === fromUnit.id &&
                                             c.toUnitId === toUnit.id)) continue;
  group.conversions.push({ id: generateUUID(), fromUnitId: fromUnit.id,
      toUnitId: toUnit.id, multiplier: convData.multiplier, equation: convData.equation,
      description: fromUnit.symbol + ' to ' + toUnit.symbol });
  \<close>
  The accumulator is the group's conversion list with the number of identifiers drawn.
\<close>

definition merged_conversion ::
  "(nat \<Rightarrow> string) \<Rightarrow> nat \<Rightarrow> Unit \<Rightarrow> Unit \<Rightarrow> valid_conversion \<Rightarrow> ConversionEquation" where
  "merged_conversion uuid n fromUnit toUnit convData =
     \<lparr>conv_id = uuid n, fromUnitId = unit_id fromUnit, toUnitId = unit_id toUnit,
      multiplier = v_multiplier convData, equation = v_equation convData,
      conv_description = symbol fromUnit @ '' to '' @ symbol toUnit\<rparr>"

definition merge_one ::
  "(nat \<Rightarrow> string) \<Rightarrow> Unit list \<Rightarrow> Unit \<Rightarrow> ConversionEquation list \<times> nat \<Rightarrow> valid_conversion \<Rightarrow>
   ConversionEquation list \<times> nat" where
  "merge_one uuid groupUnits fromUnit acc convData =
     (case find (\<lambda>u. symbol u = v_to convData) groupUnits of
        None \<Rightarrow> acc
      | Some toUnit \<Rightarrow>
          (if list_ex (same_pair (unit_id fromUnit) (unit_id toUnit)) (fst acc) then acc
           else (fst acc @ [merged_conversion uuid (snd acc) fromUnit toUnit convData],
                 Suc (snd acc))))"

definition merge_unit ::
  "(nat \<Rightarrow> string) \<Rightarrow> Unit list \<Rightarrow> ConversionEquation list \<times> nat \<Rightarrow>
   Unit \<times> valid_conversion list \<Rightarrow> ConversionEquation list \<times> nat" where
  "merge_unit uuid groupUnits acc result =
     foldl (merge_one uuid groupUnits (fst result)) acc (snd result)"

text \<open>
  The work of one promise of a batch. The answer of \<^verbatim>\<open>generateConversionsFromUnit\<close> for a
  unit, its siblings and the group name is the parameter \<open>oracle\<close>; a failed request
  is the answer \<^verbatim>\<open>[]\<close>. The answer is mapped over with \<^verbatim>\<open>validateConversion\<close>, which
  throws when the answer is no array or when one validation throws, and the
  \<^verbatim>\<open>null\<close>s are filtered out.
  \<^verbatim>\<open>
  const toUnits = groupUnits.filter(u => u.id !== fromUnit.id);
  const conversions = await generateConversionsFromUnit(fromUnit, toUnits, group.name);
  const valid = conversions.map(c => validateConversion(c, fromUnit, groupUnits))
                           .filter(Boolean);
  return { fromUnit, conversions: valid };
  \<close>
\<close>

definition siblings :: "Unit list \<Rightarrow> Unit \<Rightarrow> Unit list" where
  "siblings groupUnits fromUnit = filter (\<lambda>u. unit_id u \<noteq> unit_id fromUnit) groupUnits"

fun validate_all ::
  "json list \<Rightarrow> Unit \<Rightarrow> Unit list \<Rightarrow> js_error + valid_conversion list" where
  "validate_all [] fromUnit groupUnits = Inr []"
| "validate_all (c # cs) fromUnit groupUnits =
     (case validateConversion c fromUnit groupUnits of
        Inl err \<Rightarrow> Inl err
      | Inr r \<Rightarrow>
          (case validate_all cs fromUnit groupUnits of
             Inl err \<Rightarrow> Inl err
           | Inr rs \<Rightarrow> Inr (case r of None \<Rightarrow> rs | Some v \<Rightarrow> v # rs)))"

definition request_unit ::
  "(Unit \<Rightarrow> Unit list \<Rightarrow> string \<Rightarrow> json) \<Rightarrow> Unit list \<Rightarrow> string \<Rightarrow> Unit \<Rightarrow>
   js_error + Unit \<times> valid_conversion list" where
  "request_unit oracle groupUnits groupName fromUnit =
     (case oracle fromUnit (siblings groupUnits fromUnit) groupName of
        JArr answer \<Rightarrow>
          (case validate_all answer fromUnit groupUnits of
             Inl err \<Rightarrow> Inl err
           | Inr accepted \<Rightarrow> Inr (fromUnit, accepted))
      | _ \<Rightarrow> Inl TypeError)"

text \<open>
  \<^verbatim>\<open>Promise.all\<close> over the promises of a batch: the results in the order of the batch, or
  the rejection when a promise throws.
\<close>

fun request_batch ::
  "(Unit \<Rightarrow> Unit list \<Rightarrow> string \<Rightarrow> json) \<Rightarrow> Unit list \<Rightarrow> string \<Rightarrow> Unit list \<Rightarrow>
   js_error + (Unit \<times> valid_conversion list) list" where
  "request_batch oracle groupUnits groupName [] = Inr []"
| "request_batch oracle groupUnits groupName (u # us) =
     (case request_unit oracle groupUnits groupName u of
        Inl err \<Rightarrow> Inl err
      | Inr r \<Rightarrow>
          (case request_batch oracle groupUnits groupName us of
             Inl err \<Rightarrow> Inl err
           | Inr rs \<Rightarrow> Inr (r # rs)))"

text \<open>
  The slices \<^verbatim>\<open>xs.slice(i, Math.min(i + n, xs.length))\<close> for \<open>i = 0, n, 2n, ...\<close> below
  the length of the list.
\<close>

function batches :: "nat \<Rightarrow> 'a list \<Rightarrow> 'a list list" where
  "batches n xs = (if n = 0 \<or> xs = [] then [] else take n xs # batches n (drop n xs))"
  by pat_completeness auto
termination
  by (relation "measure (\<lambda>(n, xs). length xs)") auto

declare batches.simps [simp del]

text \<open>
  The conversions of one group over the units to process, batch by batch: all requests of
  a batch are made and validated, then the results are merged in the order of the batch.
  The result is the conversion list of the group with the identifiers drawn, or the
  error that ends the run.
\<close>

fun collect_batches ::
  "(Unit \<Rightarrow> Unit list \<Rightarrow> string \<Rightarrow> json) \<Rightarrow> (nat \<Rightarrow> string) \<Rightarrow> Unit list \<Rightarrow> string \<Rightarrow>
   ConversionEquation list \<times> nat \<Rightarrow> Unit list list \<Rightarrow> js_error + ConversionEquation list \<times> nat" where
  "collect_batches oracle uuid groupUnits groupName acc [] = Inr acc"
| "collect_batches oracle uuid groupUnits groupName acc (batch # rest) =
     (case request_batch oracle groupUnits groupName batch of
        Inl err \<Rightarrow> Inl err
      | Inr results \<Rightarrow>
          collect_batches oracle uuid groupUnits groupName
            (foldl (merge_unit uuid groupUnits) acc results) rest)"

definition collect_group ::
  "(Unit \<Rightarrow> Unit list \<Rightarrow> string \<Rightarrow> json) \<Rightarrow> (nat \<Rightarrow> string) \<Rightarrow> Unit list \<Rightarrow> string \<Rightarrow>
   ConversionEquation list \<Rightarrow> Unit list \<Rightarrow> js_error + ConversionEquation list" where
  "collect_group oracle uuid groupUnits groupName convs unitsToProcess =
     (case collect_batches oracle uuid groupUnits groupName (convs, 0)
            (batches 20 unitsToProcess) of
        Inl err \<Rightarrow> Inl err
      | Inr acc \<Rightarrow> Inr (fst acc))"

text \<open>
  The claim about the collector, written from the words of the specification: the edge
  is merged when its source is the symbol of \<open>u\<close>, its target the symbol of a sibling
  of \<open>u\<close>, its multiplier a positive finite number, its equation a text with the
  placeholder, and the pair is not in the list yet.
\<close>

definition spec_accepts :: "json \<Rightarrow> Unit \<Rightarrow> Unit list \<Rightarrow> bool" where
  "spec_accepts conv u sibs \<longleftrightarrow>
     field_of conv ''from'' = Some (JStr (symbol u)) \<and>
     list_ex (\<lambda>t. field_of conv ''to'' = Some (JStr (symbol t))) sibs \<and>
     (case field_of conv ''multiplier'' of Some (JNum (Finite r)) \<Rightarrow> 0 < r | _ \<Rightarrow> False) \<and>
     (case field_of conv ''equation'' of Some (JStr e) \<Rightarrow> CHR ''x'' \<in> set e | _ \<Rightarrow> False)"

text \<open>Sample data: two units of one group, and answers of the Oracle.\<close>

definition raw_edge :: "string \<Rightarrow> string \<Rightarrow> real \<Rightarrow> string \<Rightarrow> json" where
  "raw_edge f t m e =
     JObj [(''from'', JStr f), (''to'', JStr t), (''multiplier'', JNum (Finite m)),
           (''equation'', JStr e)]"

definition all_pairs_oracle :: "Unit \<Rightarrow> Unit list \<Rightarrow> string \<Rightarrow> json" where
  "all_pairs_oracle fromUnit toUnits groupName =
     JArr [raw_edge (symbol fromUnit) ''A'' 1 ''x * 1'',
           raw_edge (symbol fromUnit) ''B'' 1 ''x * 1'']"

text \<open>
  What the code accepts, read off \<^verbatim>\<open>validateConversion\<close>: the source and the target
  are non-empty strings, the target is looked up among all units of the group, and the
  equation is a string. \<open>accepted_value\<close> is the object returned for an accepted edge.
\<close>

definition accepts :: "json \<Rightarrow> Unit \<Rightarrow> Unit list \<Rightarrow> bool" where
  "accepts conv u groupUnits \<longleftrightarrow>
     symbol u \<noteq> [] \<and> field_of conv ''from'' = Some (JStr (symbol u)) \<and>
     (case field_of conv ''to'' of
        Some (JStr s) \<Rightarrow> s \<noteq> [] \<and> list_ex (\<lambda>t. symbol t = s) groupUnits
      | _ \<Rightarrow> False) \<and>
     (case field_of conv ''multiplier'' of Some (JNum (Finite r)) \<Rightarrow> 0 < r | _ \<Rightarrow> False) \<and>
     (case field_of conv ''equation'' of Some (JStr e) \<Rightarrow> CHR ''x'' \<in> set e | _ \<Rightarrow> False)"

definition accepted_value :: "json \<Rightarrow> Unit \<Rightarrow> valid_conversion" where
  "accepted_value conv u =
     \<lparr>v_from = symbol u,
      v_to = (case field_of conv ''to'' of Some (JStr s) \<Rightarrow> s | _ \<Rightarrow> []),
      v_multiplier = (case field_of conv ''multiplier'' of Some (JNum (Finite r)) \<Rightarrow> r | _ \<Rightarrow> 0),
      v_equation = (case field_of conv ''equation'' of Some (JStr e) \<Rightarrow> trim e | _ \<Rightarrow> [])\<rparr>"

definition text_or_absent :: "json option \<Rightarrow> bool" where
  "text_or_absent v = (case v of None \<Rightarrow> True | Some (JStr e) \<Rightarrow> True | _ \<Rightarrow> False)"

section \<open>Checkpoint store: loadCheckpoint\<close>

text \<open>
  \<^verbatim>\<open>
  function loadCheckpoint() {
      const path = join(process.cwd(), 'output', 'conversions-checkpoint.json');
      if (existsSync(path)) {
          try {
              const data = JSON.parse(readFileSync(path, 'utf-8'));
              if (data.classificationComplete !== undefined) return data;
          } catch { }
      }
      return { classificationComplete: false, groupsClassified: {},
               conversionsGroupsCompleted: [], currentConversionGroupId: null,
               unitsCompleted: [], lastUpdated: new Date().toISOString() };
  }
  \<close>
  The file system is the state of the checkpoint file: missing, present but failing to be
  read, or present with a text. \<^verbatim>\<open>JSON.parse\<close> is a parameter that gives no value where
  it throws a \<^verbatim>\<open>SyntaxError\<close>, and the clock is the parameter \<open>now\<close>. Reading the
  property of \<^verbatim>\<open>null\<close> throws inside the \<^verbatim>\<open>try\<close> block, and is caught there. The
  function returns the parsed value as it is, or the fresh object.
\<close>

datatype checkpoint_file = Missing | Unreadable | Content string

definition fresh_checkpoint :: "string \<Rightarrow> json" where
  "fresh_checkpoint now =
     JObj [(''classificationComplete'', JBool False), (''groupsClassified'', JObj []),
           (''conversionsGroupsCompleted'', JArr []), (''currentConversionGroupId'', JNull),
           (''unitsCompleted'', JArr []), (''lastUpdated'', JStr now)]"

definition loadCheckpoint :: "(string \<Rightarrow> json option) \<Rightarrow> string \<Rightarrow> checkpoint_file \<Rightarrow> json" where
  "loadCheckpoint parse now file =
     (case file of
        Missing \<Rightarrow> fresh_checkpoint now
      | Unreadable \<Rightarrow> fresh_checkpoint now
      | Content text \<Rightarrow>
          (case parse text of
             None \<Rightarrow> fresh_checkpoint now
           | Some data \<Rightarrow>
               (if data = JNull then fresh_checkpoint now
                else if field_of data ''classificationComplete'' \<noteq> None then data
                else fresh_checkpoint now)))"

text \<open>
  The four failures of the claim: no file, a file that cannot be read, a text that is no
  JSON, and a JSON value without the field \<^verbatim>\<open>classificationComplete\<close>.
\<close>

definition checkpoint_unusable :: "(string \<Rightarrow> json option) \<Rightarrow> checkpoint_file \<Rightarrow> bool" where
  "checkpoint_unusable parse file =
     (case file of
        Missing \<Rightarrow> True
      | Unreadable \<Rightarrow> True
      | Content text \<Rightarrow>
          (case parse text of
             None \<Rightarrow> True
           | Some data \<Rightarrow> field_of data ''classificationComplete'' = None))"

text \<open>A parser for the closed examples: it knows two texts and rejects every other.\<close>

definition sample_parse :: "string \<Rightarrow> json option" where
  "sample_parse text =
     (if text = ''{}'' then Some (JObj [])
      else if text = ''null'' then Some JNull
      else None)"

section \<open>The conversion pipeline: checkpoint and classification phase\<close>

text \<open>
  The checkpoint as the pipeline uses it. \<^verbatim>\<open>groupsClassified\<close> is an object from group
  names to arrays of unit ids, kept as the list of its entries in insertion order; the
  time stamp \<^verbatim>\<open>lastUpdated\<close> plays no role in the control flow and is left out.
\<close>

record checkpoint =
  classificationComplete :: bool
  groupsClassified :: "(string \<times> string list) list"
  conversionsGroupsCompleted :: "string list"
  currentConversionGroupId :: "string option"
  unitsCompleted :: "string list"

definition initial_checkpoint :: checkpoint where
  "initial_checkpoint =
     \<lparr>classificationComplete = False, groupsClassified = [], conversionsGroupsCompleted = [],
      currentConversionGroupId = None, unitsCompleted = []\<rparr>"

text \<open>
  The state of a run: the checkpoint object in memory, the ids of the units for which a
  classification request was sent to the Oracle, in order, and the checkpoints written by
  \<^verbatim>\<open>saveCheckpoint\<close>, in order. A run that is interrupted leaves the last checkpoint
  written so far in the file.
\<close>

record run =
  cp :: checkpoint
  classify_calls :: "string list"
  saved :: "checkpoint list"

definition start :: "checkpoint \<Rightarrow> run" where
  "start c = \<lparr>cp = c, classify_calls = [], saved = []\<rparr>"

text \<open>
  \<^verbatim>\<open>const unmapped = allUnits.filter(u => !u.unitGroupId);\<close> A missing and an empty group
  id are both falsy.
\<close>

definition unmapped_units :: "Unit list \<Rightarrow> Unit list" where
  "unmapped_units allUnits =
     filter (\<lambda>u. unitGroupId u = None \<or> unitGroupId u = Some []) allUnits"

text \<open>
  \<^verbatim>\<open>
  if (!checkpoint.groupsClassified[groupNames[idx]])
      checkpoint.groupsClassified[groupNames[idx]] = [];
  checkpoint.groupsClassified[groupNames[idx]].push(unit.id);
  \<close>
\<close>

fun push_classified ::
  "(string \<times> string list) list \<Rightarrow> string \<Rightarrow> string \<Rightarrow> (string \<times> string list) list" where
  "push_classified [] groupName ident = [(groupName, [ident])]"
| "push_classified ((name, ids) # rest) groupName ident =
     (if name = groupName then (name, ids @ [ident]) # rest
      else (name, ids) # push_classified rest groupName ident)"

definition record_group :: "checkpoint \<Rightarrow> Unit \<times> string \<Rightarrow> checkpoint" where
  "record_group c entry =
     c\<lparr>groupsClassified :=
         push_classified (groupsClassified c) (snd entry) (unit_id (fst entry))\<rparr>"

text \<open>
  One batch of phase 1. The answer of \<^verbatim>\<open>classifyUnit\<close> for a unit and the names of the
  groups known so far is the parameter \<open>classify\<close> (a failed request answers
  \<^verbatim>\<open>'Uncategorized'\<close>). All requests of a batch are made with the group names known when
  the batch starts.
  \<^verbatim>\<open>
  const batch = unmapped.slice(i, Math.min(i + batchSize, unmapped.length));
  const promises = batch.map(u => classifyUnit(u, Object.keys(checkpoint.groupsClassified)));
  const groupNames = await Promise.all(promises);
  batch.forEach((unit, idx) => { ... });
  saveCheckpoint(checkpoint);
  \<close>
\<close>

definition classify_batch :: "(Unit \<Rightarrow> string list \<Rightarrow> string) \<Rightarrow> run \<Rightarrow> Unit list \<Rightarrow> run" where
  "classify_batch classify r batch =
     (let known = map fst (groupsClassified (cp r));
          groupNames = map (\<lambda>u. classify u known) batch;
          c = foldl record_group (cp r) (zip batch groupNames)
      in \<lparr>cp = c, classify_calls = classify_calls r @ map unit_id batch,
          saved = saved r @ [c]\<rparr>)"

text \<open>
  \<^verbatim>\<open>
  if (!checkpoint.classificationComplete && unmapped.length > 0) {
      const batchSize = 20;
      for (let i = 0; i < unmapped.length; i += batchSize) { ... }
      checkpoint.classificationComplete = true;
      saveCheckpoint(checkpoint);
  }
  \<close>
\<close>

definition phase1 :: "(Unit \<Rightarrow> string list \<Rightarrow> string) \<Rightarrow> Unit list \<Rightarrow> run \<Rightarrow> run" where
  "phase1 classify allUnits r =
     (let unmapped = unmapped_units allUnits in
      if \<not> classificationComplete (cp r) \<and> unmapped \<noteq> []
      then (let r1 = foldl (classify_batch classify) r (batches 20 unmapped);
                c = (cp r1)\<lparr>classificationComplete := True\<rparr>
            in r1\<lparr>cp := c, saved := saved r1 @ [c]\<rparr>)
      else r)"

text \<open>
  Phase 2 picks the groups and the units that are still to be processed:
  \<^verbatim>\<open>
  const groupsNeedingConversions = unitGroups.filter(g => {
      if (checkpoint.conversionsGroupsCompleted.includes(g.id)) return false;
      const units = allUnits.filter(u => g.unitIds.includes(u.id));
      return g.conversions.length < units.length * (units.length - 1) && units.length >= 2;
  });
  ...
  const unitsToProcess = checkpoint.currentConversionGroupId === group.id
      ? groupUnits.filter(u => !checkpoint.unitsCompleted.includes(u.id))
      : groupUnits;
  \<close>
\<close>

definition groupsNeedingConversions :: "checkpoint \<Rightarrow> Unit list \<Rightarrow> UnitGroup list \<Rightarrow> UnitGroup list" where
  "groupsNeedingConversions c allUnits unitGroups =
     filter (\<lambda>g. group_id g \<notin> set (conversionsGroupsCompleted c) \<and>
                 length (conversions g) < expectedCount (groupUnits_of allUnits g) \<and>
                 2 \<le> length (groupUnits_of allUnits g)) unitGroups"

definition unitsToProcess :: "checkpoint \<Rightarrow> UnitGroup \<Rightarrow> Unit list \<Rightarrow> Unit list" where
  "unitsToProcess c g groupUnits =
     (if currentConversionGroupId c = Some (group_id g)
      then filter (\<lambda>u. unit_id u \<notin> set (unitsCompleted c)) groupUnits
      else groupUnits)"

text \<open>An Oracle that puts every unit into the group Flow, for the closed examples.\<close>

definition flow_oracle :: "Unit \<Rightarrow> string list \<Rightarrow> string" where
  "flow_oracle u known = ''Flow''"

definition partial_checkpoint :: checkpoint where
  "partial_checkpoint =
     \<lparr>classificationComplete = False, groupsClassified = [(''Flow'', [''u1'', ''u2''])],
      conversionsGroupsCompleted = [], currentConversionGroupId = None, unitsCompleted = []\<rparr>"

section \<open>Duplicate detector\<close>

text \<open>
  The spec entries, with the fields that the detector reads. A domain is one of the four
  literals of the schema.
\<close>

datatype Domain = HVAC | ELECTRICAL | PLUMBING | FIRE_PROTECTION

record SpecType =
  spec_id :: string
  primaryName :: string
  spec_description :: string
  domain :: Domain

text \<open>
  \<^verbatim>\<open>str.split(/\s+/)\<close>: the pieces between the maximal runs of white space. A string
  that starts or ends with white space gives an empty piece there, and the empty
  string gives one empty piece.
\<close>

function split_ws :: "string \<Rightarrow> string list" where
  "split_ws s =
     (if dropWhile (\<lambda>c. \<not> is_space c) s = [] then [takeWhile (\<lambda>c. \<not> is_space c) s]
      else takeWhile (\<lambda>c. \<not> is_space c) s #
           split_ws (dropWhile is_space (dropWhile (\<lambda>c. \<not> is_space c) s)))"
  by pat_completeness auto
termination
proof (relation "measure length")
  show "wf (measure length)" by simp
next
  fix s :: string
  assume ne: "dropWhile (\<lambda>c. \<not> is_space c) s \<noteq> []"
  let ?rest = "dropWhile (\<lambda>c. \<not> is_space c) s"
  from ne have "is_space (hd ?rest)"
    using hd_dropWhile [of "\<lambda>c. \<not> is_space c" s] by simp
  with ne have "length (dropWhile is_space ?rest) < length ?rest"
    by (cases ?rest) (auto intro: le_imp_less_Suc length_dropWhile_le)
  also have "length ?rest \<le> length s" by (rule length_dropWhile_le)
  finally show "(dropWhile is_space ?rest, s) \<in> measure length" by simp
qed

declare split_ws.simps [simp del]

text \<open>
  \<^verbatim>\<open>
  function calculateStringSimilarity(str1, str2) {
      const words1 = new Set(str1.toLowerCase().split(/\s+/));
      const words2 = new Set(str2.toLowerCase().split(/\s+/));
      const intersection = new Set([...words1].filter(x => words2.has(x)));
      const union = new Set([...words1, ...words2]);
      return (intersection.size / union.size) * 100;
  }
  \<close>
  A \<^verbatim>\<open>Set\<close> is the list of its elements in insertion order, without repetition.
\<close>

definition words_of :: "string \<Rightarrow> string list" where
  "words_of str = remdups (split_ws (toLowerCase str))"

definition calculateStringSimilarity :: "string \<Rightarrow> string \<Rightarrow> real" where
  "calculateStringSimilarity str1 str2 =
     (let words1 = words_of str1; words2 = words_of str2;
          intersection = filter (\<lambda>x. x \<in> set words2) words1;
          union = remdups (words1 @ words2)
      in real (length intersection) / real (length union) * 100)"

text \<open>
  \<^verbatim>\<open>
  const byDomain = {};
  for (const spec of specTypes) {
      if (!byDomain[spec.domain]) { byDomain[spec.domain] = []; }
      byDomain[spec.domain].push(spec);
  }
  \<close>
  The object is the list of its entries in insertion order.
\<close>

fun add_to_domain :: "(Domain \<times> SpecType list) list \<Rightarrow> SpecType \<Rightarrow> (Domain \<times> SpecType list) list" where
  "add_to_domain [] spec = [(domain spec, [spec])]"
| "add_to_domain ((d, specs) # rest) spec =
     (if d = domain spec then (d, specs @ [spec]) # rest
      else (d, specs) # add_to_domain rest spec)"

definition byDomain :: "SpecType list \<Rightarrow> (Domain \<times> SpecType list) list" where
  "byDomain specTypes = foldl add_to_domain [] specTypes"

text \<open>
  \<^verbatim>\<open>
  for (let i = 0; i < specs.length; i++) {
      for (let j = i + 1; j < specs.length; j++) {
          const similarity = calculateStringSimilarity(specs[i].primaryName,
                                                       specs[j].primaryName);
          if (similarity >= 30) {
              candidates.push({ spec1: specs[i], spec2: specs[j],
                                stringSimilarity: similarity });
          }
      }
  }
  \<close>
\<close>

record candidate =
  spec1 :: SpecType
  spec2 :: SpecType
  stringSimilarity :: real

fun index_pairs :: "'a list \<Rightarrow> ('a \<times> 'a) list" where
  "index_pairs [] = []"
| "index_pairs (x # xs) = map (Pair x) xs @ index_pairs xs"

definition name_similarity :: "SpecType \<times> SpecType \<Rightarrow> real" where
  "name_similarity p = calculateStringSimilarity (primaryName (fst p)) (primaryName (snd p))"

definition make_candidate :: "SpecType \<times> SpecType \<Rightarrow> candidate" where
  "make_candidate p = \<lparr>spec1 = fst p, spec2 = snd p, stringSimilarity = name_similarity p\<rparr>"

definition domain_candidates :: "SpecType list \<Rightarrow> candidate list" where
  "domain_candidates specs =
     map make_candidate (filter (\<lambda>p. 30 \<le> name_similarity p) (index_pairs specs))"

definition find_candidates :: "SpecType list \<Rightarrow> candidate list" where
  "find_candidates specTypes =
     concat (map (\<lambda>entry. domain_candidates (snd entry)) (byDomain specTypes))"

text \<open>
  Stage 2. The answer of the Oracle to a batch is a parameter: none when the request
  throws, else the list of results in the shape the prompt asks for. For a flagged
  result whose \<^verbatim>\<open>pairIndex\<close> names no candidate of the batch, \<^verbatim>\<open>cand\<close> is
  \<^verbatim>\<open>undefined\<close> and \<^verbatim>\<open>cand.spec1\<close> throws; the \<^verbatim>\<open>catch\<close> around the batch ends the walk
  through the results and keeps the groups pushed so far.
  \<^verbatim>\<open>
  try {
      const results = await askClaudeJSON(prompt, ...);
      for (const result of results) {
          if (result.areDuplicates || result.similarity >= 85) {
              const cand = batch[result.pairIndex];
              duplicateGroups.push({ similarity: result.similarity,
                  reason: result.reason, specTypes: [cand.spec1, cand.spec2] });
          }
      }
  } catch (error) { console.error(...); }
  \<close>
\<close>

record oracle_result =
  pairIndex :: int
  areDuplicates :: bool
  similarity :: real
  reason :: string

record DuplicateGroup =
  dg_similarity :: real
  dg_reason :: string
  dg_specTypes :: "SpecType list"

definition flagged :: "oracle_result \<Rightarrow> bool" where
  "flagged r \<longleftrightarrow> areDuplicates r \<or> 85 \<le> similarity r"

definition index_ok :: "candidate list \<Rightarrow> oracle_result \<Rightarrow> bool" where
  "index_ok batch r \<longleftrightarrow> 0 \<le> pairIndex r \<and> pairIndex r < int (length batch)"

definition make_group :: "candidate list \<Rightarrow> oracle_result \<Rightarrow> DuplicateGroup" where
  "make_group batch r =
     (let cand = batch ! nat (pairIndex r) in
      \<lparr>dg_similarity = similarity r, dg_reason = reason r,
       dg_specTypes = [spec1 cand, spec2 cand]\<rparr>)"

fun record_results ::
  "candidate list \<Rightarrow> DuplicateGroup list \<Rightarrow> oracle_result list \<Rightarrow> DuplicateGroup list" where
  "record_results batch groups [] = groups"
| "record_results batch groups (r # rs) =
     (if flagged r
      then (if index_ok batch r then record_results batch (groups @ [make_group batch r]) rs
            else groups)
      else record_results batch groups rs)"

definition detect_batch ::
  "(candidate list \<Rightarrow> oracle_result list option) \<Rightarrow> DuplicateGroup list \<Rightarrow> candidate list \<Rightarrow>
   DuplicateGroup list" where
  "detect_batch oracle groups batch =
     (case oracle batch of
        None \<Rightarrow> groups
      | Some results \<Rightarrow> record_results batch groups results)"

definition batchDetectDuplicates ::
  "(candidate list \<Rightarrow> oracle_result list option) \<Rightarrow> candidate list \<Rightarrow> DuplicateGroup list" where
  "batchDetectDuplicates oracle candidates =
     foldl (detect_batch oracle) [] (batches 10 candidates)"

definition findSemanticDuplicates ::
  "(candidate list \<Rightarrow> oracle_result list option) \<Rightarrow> SpecType list \<Rightarrow> DuplicateGroup list" where
  "findSemanticDuplicates oracle specTypes =
     (let candidates = find_candidates specTypes in
      if candidates = [] then [] else batchDetectDuplicates oracle candidates)"

text \<open>
  The Jaccard index of two names in per cent, from the words of the specification: the
  size of the intersection of the two word sets over the size of their union.
\<close>

definition word_set :: "string \<Rightarrow> string set" where
  "word_set str = set (split_ws (toLowerCase str))"

definition jaccard_percent :: "string \<Rightarrow> string \<Rightarrow> real" where
  "jaccard_percent a b =
     real (card (word_set a \<inter> word_set b)) / real (card (word_set a \<union> word_set b)) * 100"

text \<open>Sample data for the closed examples.\<close>

definition spec_entry :: "string \<Rightarrow> string \<Rightarrow> Domain \<Rightarrow> SpecType" where
  "spec_entry ident name d =
     \<lparr>spec_id = ident, primaryName = name, spec_description = [], domain = d\<rparr>"

definition verdict :: "int \<Rightarrow> bool \<Rightarrow> real \<Rightarrow> oracle_result" where
  "verdict i dup score = \<lparr>pairIndex = i, areDuplicates = dup, similarity = score, reason = []\<rparr>"

definition cooling :: SpecType where
  "cooling = spec_entry ''s1'' ''Cooling Capacity'' HVAC"

definition total_cooling :: SpecType where
  "total_cooling = spec_entry ''s2'' ''Total Cooling Capacity'' HVAC"

definition heating :: SpecType where
  "heating = spec_entry ''s3'' ''Heating Capacity'' HVAC"

definition cand_a :: candidate where
  "cand_a = make_candidate (cooling, total_cooling)"

definition cand_b :: candidate where
  "cand_b = make_candidate (cooling, heating)"

section \<open>Properties of findUnitBySymbol\<close>

lemma unit_matches_nocase: "unit_matches sref u = matches_nocase sref u"
  unfolding unit_matches_def matches_nocase_def symbol_nocase_def abbr_nocase_def
    abbr_matches_def list_ex_iff set_map
  by (metis (no_types, lifting) image_iff)

text \<open>
  C7, as stated, fails: with a unit of symbol gpm listed before a unit of symbol GPM, the
  reference GPM resolves to the first (a case-insensitive match), not to the unit whose
  symbol equals the reference exactly.
\<close>

theorem findUnitBySymbol_not_tiered:
  "findUnitBySymbol ''GPM'' [gpm_lower, gpm_upper] = Some gpm_lower \<and>
   findUnitBySymbol_tiered ''GPM'' [gpm_lower, gpm_upper] = Some gpm_upper \<and>
   gpm_lower \<noteq> gpm_upper"
  by (simp add: findUnitBySymbol_def findUnitBySymbol_tiered_def unit_matches_def
      symbol_exact_def or_else_def gpm_lower_def gpm_upper_def toLowerCase_def
      toLowerCase_char_def char_of_def bit_0)

text \<open>
  C7, amended: findUnitBySymbol makes one pass and returns the first unit of the list that
  agrees with the reference in any of the four ways (symbol or abbreviation, exactly or
  up to letter case), with no priority between the four: the unit returned is the one at
  the least position whose symbol or one of whose abbreviations equals the reference up
  to letter case. The result is none exactly when the reference is empty or no unit
  agrees with it.
\<close>

theorem findUnitBySymbol_first_match:
  "findUnitBySymbol sref units =
     (if sref = [] then None else find (matches_nocase sref) units) \<and>
   (findUnitBySymbol sref units = Some u \<longleftrightarrow>
      sref \<noteq> [] \<and>
      (\<exists>i<length units. units ! i = u \<and> matches_nocase sref u \<and>
         (\<forall>j<i. \<not> matches_nocase sref (units ! j)))) \<and>
   (findUnitBySymbol sref units = None \<longleftrightarrow>
      sref = [] \<or> (\<forall>v\<in>set units. \<not> matches_nocase sref v)) \<and>
   (matches_nocase sref u \<longleftrightarrow>
      symbol_exact sref u \<or> symbol_nocase sref u \<or> abbr_exact sref u \<or> abbr_nocase sref u)"
proof -
  have "unit_matches sref = matches_nocase sref"
    by (rule ext) (rule unit_matches_nocase)
  then have eq: "findUnitBySymbol sref units =
      (if sref = [] then None else find (matches_nocase sref) units)"
    by (simp add: findUnitBySymbol_def)
  have some: "findUnitBySymbol sref units = Some u \<longleftrightarrow>
      sref \<noteq> [] \<and>
      (\<exists>i<length units. units ! i = u \<and> matches_nocase sref u \<and>
         (\<forall>j<i. \<not> matches_nocase sref (units ! j)))"
    unfolding eq by (auto simp: find_Some_iff)
  have none: "findUnitBySymbol sref units = None \<longleftrightarrow>
      sref = [] \<or> (\<forall>v\<in>set units. \<not> matches_nocase sref v)"
    unfolding eq by (auto simp: find_None_iff)
  have ways: "matches_nocase sref u \<longleftrightarrow>
      symbol_exact sref u \<or> symbol_nocase sref u \<or> abbr_exact sref u \<or> abbr_nocase sref u"
    using unit_matches_nocase [of sref u]
    by (auto simp: matches_nocase_def symbol_exact_def symbol_nocase_def abbr_exact_def
        abbr_nocase_def)
  from eq some none ways show ?thesis by blast
qed

theorem findUnitBySymbol_first_match_witness:
  "findUnitBySymbol ''gpm'' [gpm_upper] = Some gpm_upper \<and>
   findUnitBySymbol ''GPM'' [gpm_upper] = Some gpm_upper \<and>
   findUnitBySymbol ''gal/min'' [gpm_upper] = Some gpm_upper \<and>
   findUnitBySymbol ''L/min'' [gpm_upper] = None"
proof -
  have e: "findUnitBySymbol r [gpm_upper] =
      (if r = [] then None else find (matches_nocase r) [gpm_upper])" for r
    using findUnitBySymbol_first_match [of r "[gpm_upper]"] by blast
  show ?thesis
    unfolding e
    by (simp add: matches_nocase_def symbol_nocase_def abbr_nocase_def
        gpm_upper_def toLowerCase_def toLowerCase_char_def char_of_def bit_0)
qed

section \<open>Properties of the closure engine\<close>

subsection \<open>The multiplier table\<close>

lemma relax_cases:
  "relax k i m j =
     (if m (pair_key (unit_id i) (unit_id k)) \<noteq> None \<and>
         m (pair_key (unit_id k) (unit_id j)) \<noteq> None \<and>
         m (pair_key (unit_id i) (unit_id j)) = None
      then m(pair_key (unit_id i) (unit_id j) \<mapsto>
             the (m (pair_key (unit_id i) (unit_id k))) * the (m (pair_key (unit_id k) (unit_id j))))
      else m)"
  by (auto simp: relax_def split: option.splits)

lemma relax_mono: "m \<subseteq>\<^sub>m relax k i m j"
  by (auto simp: relax_cases map_le_def)

lemma relax_triple_mono: "m \<subseteq>\<^sub>m relax_triple m t"
  by (cases t) (simp add: relax_triple_def relax_mono)

lemma foldl_relax_mono: "m \<subseteq>\<^sub>m foldl relax_triple m ts"
proof (induction ts arbitrary: m)
  case Nil
  show ?case by simp
next
  case (Cons t ts)
  have "m \<subseteq>\<^sub>m relax_triple m t" by (rule relax_triple_mono)
  also have "relax_triple m t \<subseteq>\<^sub>m foldl relax_triple (relax_triple m t) ts" by (rule Cons.IH)
  finally show ?case by simp
qed

lemma foldl_concat_map:
  "foldl f a (concat (map g xs)) = foldl (\<lambda>a x. foldl f a (g x)) a xs"
  by (induction xs arbitrary: a) simp_all

lemma loop_j_triples: "loop_j units k m i = foldl relax_triple m (map (\<lambda>j. (k, i, j)) units)"
  by (simp add: loop_j_def foldl_map relax_triple_def)

lemma loop_i_triples:
  "loop_i units m k =
     foldl relax_triple m (concat (map (\<lambda>i. map (\<lambda>j. (k, i, j)) units) units))"
proof -
  have "loop_j units k = (\<lambda>m i. foldl relax_triple m (map (\<lambda>j. (k, i, j)) units))"
    by (rule ext, rule ext, rule loop_j_triples)
  then show ?thesis
    by (simp add: loop_i_def foldl_concat_map)
qed

lemma loop_k_triples: "loop_k units m = foldl relax_triple m (triples units)"
proof -
  have "loop_i units =
      (\<lambda>m k. foldl relax_triple m (concat (map (\<lambda>i. map (\<lambda>j. (k, i, j)) units) units)))"
    by (rule ext, rule ext, rule loop_i_triples)
  then show ?thesis
    by (simp add: loop_k_def triples_def foldl_concat_map)
qed




lemma seed_direct_snoc:
  "seed_direct (cs @ [c]) = (seed_direct cs)(pair_key (fromUnitId c) (toUnitId c) \<mapsto> multiplier c)"
  by (simp add: seed_direct_def direct_step_def)

lemma foldl_identity_step:
  "foldl identity_step m units k =
     (if k \<in> (\<lambda>u. pair_key (unit_id u) (unit_id u)) ` set units then Some 1 else m k)"
  by (induction units arbitrary: m) (auto simp: identity_step_def)

lemma seed_table_apply:
  "seed_table units existing k =
     (if k \<in> (\<lambda>u. pair_key (unit_id u) (unit_id u)) ` set units then Some 1
      else seed_direct existing k)"
  by (simp add: seed_table_def foldl_identity_step)

lemma seed_direct_apply:
  "seed_direct existing k =
     map_option multiplier
       (find (\<lambda>c. pair_key (fromUnitId c) (toUnitId c) = k) (rev existing))"
proof (induction existing rule: rev_induct)
  case Nil
  show ?case by (simp add: seed_direct_def)
next
  case (snoc c cs)
  then show ?case by (simp add: seed_direct_snoc)
qed

lemma emit_cases:
  "emit uuid sh m ex f acc t =
     (if unit_id f = unit_id t \<or> m (pair_key (unit_id f) (unit_id t)) = None then acc
      else case find (same_pair (unit_id f) (unit_id t)) ex of
             Some e \<Rightarrow> (fst acc @ [e], snd acc)
           | None \<Rightarrow>
               (fst acc @ [new_conversion uuid sh (snd acc) f t
                             (the (m (pair_key (unit_id f) (unit_id t))))], Suc (snd acc)))"
  by (auto simp: emit_def split: option.splits)

lemma emit_length:
  "length (fst (emit uuid sh m ex f acc t)) \<le>
     length (fst acc) + (if unit_id t \<noteq> unit_id f then 1 else 0)"
  by (auto simp: emit_cases split: option.splits)

lemma emit_from_length:
  "length (fst (foldl (emit uuid sh m ex f) acc ts)) \<le>
     length (fst acc) + length (filter (\<lambda>t. unit_id t \<noteq> unit_id f) ts)"
proof (induction ts rule: rev_induct)
  case Nil
  show ?case by simp
next
  case (snoc t ts)
  have "length (fst (foldl (emit uuid sh m ex f) acc (ts @ [t]))) \<le>
      length (fst (foldl (emit uuid sh m ex f) acc ts)) + (if unit_id t \<noteq> unit_id f then 1 else 0)"
    by (simp add: emit_length)
  with snoc.IH show ?case by (simp split: if_splits)
qed

lemma filter_other_ids:
  assumes "f \<in> set us"
  shows "length (filter (\<lambda>t. unit_id t \<noteq> unit_id f) us) \<le> length us - 1"
proof -
  have "length (filter (\<lambda>t. unit_id t \<noteq> unit_id f) us) < length us"
    using assms by (intro length_filter_less [of f]) simp_all
  then show ?thesis by simp
qed

lemma emit_outer_length:
  assumes "set fs \<subseteq> set us"
  shows "length (fst (foldl (emit_from uuid sh m ex us) acc fs)) \<le>
     length (fst acc) + length fs * (length us - 1)"
  using assms
proof (induction fs rule: rev_induct)
  case Nil
  show ?case by simp
next
  case (snoc f fs)
  let ?prev = "foldl (emit_from uuid sh m ex us) acc fs"
  have "length (fst (foldl (emit_from uuid sh m ex us) acc (fs @ [f]))) \<le>
      length (fst ?prev) + length (filter (\<lambda>t. unit_id t \<noteq> unit_id f) us)"
    by (simp add: emit_from_def emit_from_length)
  also have "\<dots> \<le> length (fst ?prev) + (length us - 1)"
  proof -
    have "f \<in> set us" using snoc.prems by simp
    then have "length (filter (\<lambda>t. unit_id t \<noteq> unit_id f) us) \<le> length us - 1"
      by (rule filter_other_ids)
    then show ?thesis by (rule add_left_mono)
  qed
  also have "\<dots> \<le> length (fst acc) + length fs * (length us - 1) + (length us - 1)"
    using snoc by simp
  finally show ?case by simp
qed

lemma emit_all_length:
  "length (fst (emit_all uuid sh m ex us)) \<le> length us * (length us - 1)"
  using emit_outer_length [of us us uuid sh m ex "([], 0)"] by (simp add: emit_all_def)

lemma generateCompleteConversions_length:
  "2 \<le> length us \<Longrightarrow>
   length (generateCompleteConversions uuid sh us cs) \<le> expectedCount us"
  using emit_all_length [of uuid sh "closure_table us cs" cs us]
  by (simp add: generateCompleteConversions_def expectedCount_def)

subsection \<open>The output loops\<close>

lemma emit_mem:
  "e \<in> set (fst (emit uuid sh m ex f acc t)) \<longleftrightarrow>
     e \<in> set (fst acc) \<or>
     (unit_id f \<noteq> unit_id t \<and> m (pair_key (unit_id f) (unit_id t)) \<noteq> None \<and>
      (case find (same_pair (unit_id f) (unit_id t)) ex of
         Some x \<Rightarrow> e = x
       | None \<Rightarrow> e = new_conversion uuid sh (snd acc) f t
                     (the (m (pair_key (unit_id f) (unit_id t))))))"
  by (auto simp: emit_cases split: option.splits)

lemma emit_from_subset:
  "set (fst acc) \<subseteq> set (fst (foldl (emit uuid sh m ex f) acc ts))"
  by (induction ts rule: rev_induct) (auto simp: emit_mem)

lemma emit_from_mem:
  assumes "e \<in> set (fst (foldl (emit uuid sh m ex f) acc ts))"
  shows "e \<in> set (fst acc) \<or>
     (\<exists>t\<in>set ts. unit_id f \<noteq> unit_id t \<and> m (pair_key (unit_id f) (unit_id t)) \<noteq> None \<and>
        (case find (same_pair (unit_id f) (unit_id t)) ex of
           Some x \<Rightarrow> e = x
         | None \<Rightarrow> \<exists>n. e = new_conversion uuid sh n f t
                       (the (m (pair_key (unit_id f) (unit_id t))))))"
  using assms
proof (induction ts rule: rev_induct)
  case Nil
  then show ?case by simp
next
  case (snoc t ts)
  then show ?case
    by (auto simp: emit_mem split: option.splits)
qed

lemma emit_from_complete:
  assumes "t \<in> set ts" "unit_id f \<noteq> unit_id t" "m (pair_key (unit_id f) (unit_id t)) \<noteq> None"
  shows "\<exists>e\<in>set (fst (foldl (emit uuid sh m ex f) acc ts)).
     (case find (same_pair (unit_id f) (unit_id t)) ex of
        Some x \<Rightarrow> e = x
      | None \<Rightarrow> \<exists>n. e = new_conversion uuid sh n f t
                    (the (m (pair_key (unit_id f) (unit_id t)))))"
  using assms(1)
proof (induction ts rule: rev_induct)
  case Nil
  then show ?case by simp
next
  case (snoc s ts)
  show ?case
  proof (cases "s = t")
    case True
    let ?prev = "foldl (emit uuid sh m ex f) acc ts"
    show ?thesis
    proof (cases "find (same_pair (unit_id f) (unit_id t)) ex")
      case None
      have "new_conversion uuid sh (snd ?prev) f t (the (m (pair_key (unit_id f) (unit_id t))))
          \<in> set (fst (foldl (emit uuid sh m ex f) acc (ts @ [s])))"
        using True None assms(2,3) by (simp add: emit_mem)
      then show ?thesis using None by auto
    next
      case (Some x)
      have "x \<in> set (fst (foldl (emit uuid sh m ex f) acc (ts @ [s])))"
        using True Some assms(2,3) by (simp add: emit_mem)
      then show ?thesis using Some by auto
    qed
  next
    case False
    with snoc have "\<exists>e\<in>set (fst (foldl (emit uuid sh m ex f) acc ts)).
     (case find (same_pair (unit_id f) (unit_id t)) ex of
        Some x \<Rightarrow> e = x
      | None \<Rightarrow> \<exists>n. e = new_conversion uuid sh n f t
                    (the (m (pair_key (unit_id f) (unit_id t)))))"
      by simp
    then show ?thesis
      by (auto simp: emit_mem)
  qed
qed

lemma emit_from_snoc:
  "foldl (emit_from uuid sh m ex us) acc (fs @ [g]) =
     foldl (emit uuid sh m ex g) (foldl (emit_from uuid sh m ex us) acc fs) us"
proof -
  have "foldl (emit_from uuid sh m ex us) acc (fs @ [g]) =
      emit_from uuid sh m ex us (foldl (emit_from uuid sh m ex us) acc fs) g"
    by simp
  also have "\<dots> = foldl (emit uuid sh m ex g) (foldl (emit_from uuid sh m ex us) acc fs) us"
    by (rule emit_from_def)
  finally show ?thesis .
qed

lemma emit_outer_subset:
  "set (fst acc) \<subseteq> set (fst (foldl (emit_from uuid sh m ex us) acc fs))"
proof (induction fs rule: rev_induct)
  case Nil
  show ?case by simp
next
  case (snoc f fs)
  then show ?case
    using emit_from_subset [of "foldl (emit_from uuid sh m ex us) acc fs" uuid sh m ex f us]
    unfolding emit_from_snoc by blast
qed

lemma emit_outer_mem:
  assumes "e \<in> set (fst (foldl (emit_from uuid sh m ex us) acc fs))"
  shows "e \<in> set (fst acc) \<or>
     (\<exists>f\<in>set fs. \<exists>t\<in>set us. unit_id f \<noteq> unit_id t \<and>
        m (pair_key (unit_id f) (unit_id t)) \<noteq> None \<and>
        (case find (same_pair (unit_id f) (unit_id t)) ex of
           Some x \<Rightarrow> e = x
         | None \<Rightarrow> \<exists>n. e = new_conversion uuid sh n f t
                       (the (m (pair_key (unit_id f) (unit_id t))))))"
  using assms
proof (induction fs rule: rev_induct)
  case Nil
  then show ?case by simp
next
  case (snoc f fs)
  let ?prev = "foldl (emit_from uuid sh m ex us) acc fs"
  from snoc.prems have "e \<in> set (fst (foldl (emit uuid sh m ex f) ?prev us))"
    by (simp only: emit_from_snoc)
  then consider "e \<in> set (fst ?prev)"
    | "\<exists>t\<in>set us. unit_id f \<noteq> unit_id t \<and> m (pair_key (unit_id f) (unit_id t)) \<noteq> None \<and>
        (case find (same_pair (unit_id f) (unit_id t)) ex of
           Some x \<Rightarrow> e = x
         | None \<Rightarrow> \<exists>n. e = new_conversion uuid sh n f t
                       (the (m (pair_key (unit_id f) (unit_id t)))))"
    using emit_from_mem by blast
  then show ?case
  proof cases
    case 1
    with snoc.IH show ?thesis by auto
  next
    case 2
    then show ?thesis by auto
  qed
qed

lemma emit_outer_complete:
  assumes "f \<in> set fs" "t \<in> set us" "unit_id f \<noteq> unit_id t"
    "m (pair_key (unit_id f) (unit_id t)) \<noteq> None"
  shows "\<exists>e\<in>set (fst (foldl (emit_from uuid sh m ex us) acc fs)).
     (case find (same_pair (unit_id f) (unit_id t)) ex of
        Some x \<Rightarrow> e = x
      | None \<Rightarrow> \<exists>n. e = new_conversion uuid sh n f t
                    (the (m (pair_key (unit_id f) (unit_id t)))))"
  using assms(1)
proof (induction fs rule: rev_induct)
  case Nil
  then show ?case by simp
next
  case (snoc g fs)
  let ?prev = "foldl (emit_from uuid sh m ex us) acc fs"
  have step: "foldl (emit_from uuid sh m ex us) acc (fs @ [g]) =
      foldl (emit uuid sh m ex g) ?prev us"
    by (rule emit_from_snoc)
  show ?case
  proof (cases "g = f")
    case True
    then show ?thesis
      unfolding step using emit_from_complete [of t us f m uuid sh ex ?prev] assms(2,3,4)
      by simp
  next
    case False
    with snoc have "\<exists>e\<in>set (fst ?prev).
     (case find (same_pair (unit_id f) (unit_id t)) ex of
        Some x \<Rightarrow> e = x
      | None \<Rightarrow> \<exists>n. e = new_conversion uuid sh n f t
                    (the (m (pair_key (unit_id f) (unit_id t)))))"
      by simp
    then show ?thesis
      unfolding step using emit_from_subset [of ?prev uuid sh m ex g us] by blast
  qed
qed

lemma find_in_set: "find P xs = Some x \<Longrightarrow> x \<in> set xs \<and> P x"
  by (induction xs) (auto split: if_splits)

lemma find_not_None: "x \<in> set xs \<Longrightarrow> P x \<Longrightarrow> find P xs \<noteq> None"
  by (induction xs) auto

lemma seed_table_direct_defined:
  assumes "c \<in> set existing"
  shows "seed_table units existing (pair_key (fromUnitId c) (toUnitId c)) \<noteq> None"
proof -
  have "find (\<lambda>d. pair_key (fromUnitId d) (toUnitId d) = pair_key (fromUnitId c) (toUnitId c))
      (rev existing) \<noteq> None"
    using assms by (intro find_not_None [of c]) simp_all
  then show ?thesis
    by (auto simp: seed_table_apply seed_direct_apply)
qed

lemma seed_le_closure: "seed_table units existing \<subseteq>\<^sub>m closure_table units existing"
  by (simp add: closure_table_def loop_k_triples foldl_relax_mono)

lemma closure_table_direct_defined:
  assumes "c \<in> set existing"
  shows "closure_table units existing (pair_key (fromUnitId c) (toUnitId c)) \<noteq> None"
proof -
  obtain v where "seed_table units existing (pair_key (fromUnitId c) (toUnitId c)) = Some v"
    using seed_table_direct_defined [OF assms] by blast
  then have "closure_table units existing (pair_key (fromUnitId c) (toUnitId c)) = Some v"
    using seed_le_closure [of units existing] by (auto simp: map_le_def dom_def)
  then show ?thesis by simp
qed

lemma gcc_keeps_first:
  assumes found: "find (same_pair (fromUnitId e) (toUnitId e)) existing = Some e"
    and ne: "fromUnitId e \<noteq> toUnitId e"
    and f: "fromUnitId e \<in> unit_id ` set units"
    and t: "toUnitId e \<in> unit_id ` set units"
  shows "e \<in> set (generateCompleteConversions uuid sh units existing)"
proof (cases "length units < 2")
  case True
  then show ?thesis
    using find_in_set [OF found] by (simp add: generateCompleteConversions_def)
next
  case False
  from f obtain fu where fu: "fu \<in> set units" "unit_id fu = fromUnitId e" by auto
  from t obtain tu where tu: "tu \<in> set units" "unit_id tu = toUnitId e" by auto
  have mem: "e \<in> set existing" using find_in_set [OF found] by simp
  have def: "closure_table units existing (pair_key (unit_id fu) (unit_id tu)) \<noteq> None"
    using closure_table_direct_defined [OF mem] fu tu by simp
  have ids: "unit_id fu \<noteq> unit_id tu" using ne fu tu by simp
  have "e \<in> set (fst (emit_all uuid sh (closure_table units existing) existing units))"
    using emit_outer_complete [where f = fu and fs = units and t = tu and us = units
        and m = "closure_table units existing" and uuid = uuid and sh = sh and ex = existing
        and acc = "([], 0)"] fu tu ids def found
    by (simp add: emit_all_def)
  with False show ?thesis
    by (simp add: generateCompleteConversions_def)
qed

lemma gcc_only_adds:
  assumes "x \<in> set (generateCompleteConversions uuid sh units existing)"
  shows "x \<in> set existing \<or>
     (find (same_pair (fromUnitId x) (toUnitId x)) existing = None \<and>
      (\<exists>n. \<exists>f\<in>set units. \<exists>t\<in>set units.
         x = new_conversion uuid sh n f t
               (the (closure_table units existing (pair_key (unit_id f) (unit_id t))))))"
proof (cases "length units < 2")
  case True
  with assms show ?thesis by (simp add: generateCompleteConversions_def)
next
  case False
  with assms have "x \<in> set (fst (foldl
      (emit_from uuid sh (closure_table units existing) existing units) ([], 0) units))"
    by (simp add: generateCompleteConversions_def emit_all_def)
  from emit_outer_mem [OF this] obtain f t where ft: "f \<in> set units" "t \<in> set units"
    and c: "case find (same_pair (unit_id f) (unit_id t)) existing of
           Some y \<Rightarrow> x = y
         | None \<Rightarrow> \<exists>n. x = new_conversion uuid sh n f t
                       (the (closure_table units existing (pair_key (unit_id f) (unit_id t))))"
    by auto
  show ?thesis
  proof (cases "find (same_pair (unit_id f) (unit_id t)) existing")
    case None
    with c obtain n where x: "x = new_conversion uuid sh n f t
        (the (closure_table units existing (pair_key (unit_id f) (unit_id t))))"
      by auto
    then have "fromUnitId x = unit_id f" "toUnitId x = unit_id t"
      by (simp_all add: new_conversion_def)
    with None x ft show ?thesis by auto
  next
    case (Some y)
    with c have "x = y" by simp
    with Some show ?thesis using find_in_set [of _ existing y] by blast
  qed
qed

lemma three_orders:
  assumes "length us = 3" "set us = {a, b, c}" "a \<noteq> b" "a \<noteq> c" "b \<noteq> c"
  shows "us = [a, b, c] \<or> us = [a, c, b] \<or> us = [b, a, c] \<or> us = [b, c, a] \<or>
     us = [c, a, b] \<or> us = [c, b, a]"
proof -
  from assms(1) obtain x y z where us: "us = [x, y, z]"
    by (auto simp: numeral_3_eq_3 length_Suc_conv)
  have mem: "x \<in> {a, b, c}" "y \<in> {a, b, c}" "z \<in> {a, b, c}"
    using assms(2) us by auto
  have cov: "a \<in> {x, y, z}" "b \<in> {x, y, z}" "c \<in> {x, y, z}"
    using assms(2) us by auto
  show ?thesis
    using mem cov assms(3-5) unfolding us by auto
qed

lemma seed_direct_unique:
  assumes "\<forall>c\<in>set cs. pair_key (fromUnitId c) (toUnitId c) = k \<longrightarrow> multiplier c = v"
    and "\<exists>c\<in>set cs. pair_key (fromUnitId c) (toUnitId c) = k"
  shows "seed_direct cs k = Some v"
proof -
  let ?P = "\<lambda>c. pair_key (fromUnitId c) (toUnitId c) = k"
  from assms(2) obtain c where "c \<in> set (rev cs)" "?P c" by auto
  then have "find ?P (rev cs) \<noteq> None" by (rule find_not_None)
  then obtain d where d: "find ?P (rev cs) = Some d" by blast
  from find_in_set [OF d] assms(1) have "multiplier d = v" by simp
  with d show ?thesis by (simp add: seed_direct_apply)
qed

lemma seed_direct_none:
  assumes "\<forall>c\<in>set cs. pair_key (fromUnitId c) (toUnitId c) \<noteq> k"
  shows "seed_direct cs k = None"
  using assms by (simp add: seed_direct_apply find_None_iff)

lemma gcc_new_edge:
  assumes "2 \<le> length us" "f \<in> set us" "t \<in> set us" "unit_id f \<noteq> unit_id t"
    "closure_table us cs (pair_key (unit_id f) (unit_id t)) = Some v"
    "find (same_pair (unit_id f) (unit_id t)) cs = None"
  shows "\<exists>n. new_conversion uuid sh n f t v \<in> set (generateCompleteConversions uuid sh us cs)"
  using emit_outer_complete [where f = f and fs = us and t = t and us = us
        and m = "closure_table us cs" and uuid = uuid and sh = sh and ex = cs
        and acc = "([], 0)"] assms
  by (auto simp: generateCompleteConversions_def emit_all_def)

lemma gcc_edge_multiplier:
  assumes "2 \<le> length us" "e \<in> set (generateCompleteConversions uuid sh us cs)"
    "\<forall>c\<in>set cs. \<not> same_pair (fromUnitId e) (toUnitId e) c"
  shows "closure_table us cs (pair_key (fromUnitId e) (toUnitId e)) = Some (multiplier e)"
proof -
  from assms(1,2) have "e \<in> set (fst (foldl
      (emit_from uuid sh (closure_table us cs) cs us) ([], 0) us))"
    by (simp add: generateCompleteConversions_def emit_all_def)
  from emit_outer_mem [OF this] obtain f t where ft: "f \<in> set us" "t \<in> set us"
    and def: "closure_table us cs (pair_key (unit_id f) (unit_id t)) \<noteq> None"
    and c: "case find (same_pair (unit_id f) (unit_id t)) cs of
           Some y \<Rightarrow> e = y
         | None \<Rightarrow> \<exists>n. e = new_conversion uuid sh n f t
                       (the (closure_table us cs (pair_key (unit_id f) (unit_id t))))"
    by auto
  show ?thesis
  proof (cases "find (same_pair (unit_id f) (unit_id t)) cs")
    case None
    with c obtain n where "e = new_conversion uuid sh n f t
        (the (closure_table us cs (pair_key (unit_id f) (unit_id t))))"
      by auto
    with def show ?thesis by (auto simp: new_conversion_def)
  next
    case (Some y)
    with c have "e = y" by simp
    with Some have "e \<in> set cs" "same_pair (unit_id f) (unit_id t) e"
      using find_in_set [of "same_pair (unit_id f) (unit_id t)" cs e] by simp_all
    then have "same_pair (fromUnitId e) (toUnitId e) e" by (simp add: same_pair_def)
    with \<open>e \<in> set cs\<close> assms(3) show ?thesis by blast
  qed
qed

subsection \<open>The closure example\<close>

lemma seed_two:
  assumes ab: "fromUnitId ab = ''A''" "toUnitId ab = ''B''" "multiplier ab = 2"
    and bc: "fromUnitId bc = ''B''" "toUnitId bc = ''C''" "multiplier bc = 3"
    and ds: "set ds = {ab, bc}"
  shows "seed_direct ds = [pair_key ''A'' ''B'' \<mapsto> 2, pair_key ''B'' ''C'' \<mapsto> 3]"
proof (rule ext)
  fix k
  consider "k = pair_key ''A'' ''B''" | "k = pair_key ''B'' ''C''"
    | "k \<noteq> pair_key ''A'' ''B''" "k \<noteq> pair_key ''B'' ''C''" by blast
  then show "seed_direct ds k = [pair_key ''A'' ''B'' \<mapsto> 2, pair_key ''B'' ''C'' \<mapsto> 3] k"
  proof cases
    case 1
    have "seed_direct ds k = Some 2"
      by (rule seed_direct_unique) (auto simp: ds ab bc 1 pair_key_def separator_def)
    then show ?thesis by (simp add: 1 pair_key_def separator_def)
  next
    case 2
    have "seed_direct ds k = Some 3"
      by (rule seed_direct_unique) (auto simp: ds ab bc 2 pair_key_def separator_def)
    then show ?thesis by (simp add: 2 pair_key_def separator_def)
  next
    case 3
    have "seed_direct ds k = None"
      using 3 by (intro seed_direct_none) (auto simp: ds ab bc)
    then show ?thesis using 3 by simp
  qed
qed

lemma seed_four:
  assumes ab: "fromUnitId ab = ''A''" "toUnitId ab = ''B''" "multiplier ab = 2"
    and bc: "fromUnitId bc = ''B''" "toUnitId bc = ''C''" "multiplier bc = 3"
    and ba: "fromUnitId ba = ''B''" "toUnitId ba = ''A''" "multiplier ba = 1 / 2"
    and cb: "fromUnitId cb = ''C''" "toUnitId cb = ''B''" "multiplier cb = 1 / 3"
    and ds: "set ds = {ab, bc, ba, cb}"
  shows "seed_direct ds =
     [pair_key ''A'' ''B'' \<mapsto> 2, pair_key ''B'' ''C'' \<mapsto> 3,
      pair_key ''B'' ''A'' \<mapsto> 1 / 2, pair_key ''C'' ''B'' \<mapsto> 1 / 3]"
proof (rule ext)
  fix k
  consider "k = pair_key ''A'' ''B''" | "k = pair_key ''B'' ''C''"
    | "k = pair_key ''B'' ''A''" | "k = pair_key ''C'' ''B''"
    | "k \<noteq> pair_key ''A'' ''B''" "k \<noteq> pair_key ''B'' ''C''"
      "k \<noteq> pair_key ''B'' ''A''" "k \<noteq> pair_key ''C'' ''B''" by blast
  then show "seed_direct ds k =
     [pair_key ''A'' ''B'' \<mapsto> 2, pair_key ''B'' ''C'' \<mapsto> 3,
      pair_key ''B'' ''A'' \<mapsto> 1 / 2, pair_key ''C'' ''B'' \<mapsto> 1 / 3] k"
  proof cases
    case 1
    have "seed_direct ds k = Some 2"
      by (rule seed_direct_unique) (auto simp: ds ab bc ba cb 1 pair_key_def separator_def)
    then show ?thesis by (simp add: 1 pair_key_def separator_def)
  next
    case 2
    have "seed_direct ds k = Some 3"
      by (rule seed_direct_unique) (auto simp: ds ab bc ba cb 2 pair_key_def separator_def)
    then show ?thesis by (simp add: 2 pair_key_def separator_def)
  next
    case 3
    have "seed_direct ds k = Some (1 / 2)"
      by (rule seed_direct_unique) (auto simp: ds ab bc ba cb 3 pair_key_def separator_def)
    then show ?thesis by (simp add: 3 pair_key_def separator_def)
  next
    case 4
    have "seed_direct ds k = Some (1 / 3)"
      by (rule seed_direct_unique) (auto simp: ds ab bc ba cb 4 pair_key_def separator_def)
    then show ?thesis by (simp add: 4 pair_key_def separator_def)
  next
    case 5
    have "seed_direct ds k = None"
      using 5 by (intro seed_direct_none) (auto simp: ds ab bc ba cb)
    then show ?thesis using 5 by simp
  qed
qed

lemmas closure_eval =
  closure_table_def seed_table_def identity_step_def loop_k_def loop_i_def loop_j_def relax_def
  pair_key_def separator_def

lemma closure_two:
  assumes ids: "unit_id a = ''A''" "unit_id b = ''B''" "unit_id c = ''C''"
    and us: "us = [a, b, c] \<or> us = [a, c, b] \<or> us = [b, a, c] \<or> us = [b, c, a] \<or>
     us = [c, a, b] \<or> us = [c, b, a]"
    and seed: "seed_direct ds = [pair_key ''A'' ''B'' \<mapsto> 2, pair_key ''B'' ''C'' \<mapsto> 3]"
  shows "closure_table us ds (pair_key ''A'' ''C'') = Some 6"
  using us
proof (elim disjE)
  assume "us = [a, b, c]"
  then show ?thesis by (simp add: closure_eval ids seed)
next
  assume "us = [a, c, b]"
  then show ?thesis by (simp add: closure_eval ids seed)
next
  assume "us = [b, a, c]"
  then show ?thesis by (simp add: closure_eval ids seed)
next
  assume "us = [b, c, a]"
  then show ?thesis by (simp add: closure_eval ids seed)
next
  assume "us = [c, a, b]"
  then show ?thesis by (simp add: closure_eval ids seed)
next
  assume "us = [c, b, a]"
  then show ?thesis by (simp add: closure_eval ids seed)
qed

lemma closure_four:
  assumes ids: "unit_id a = ''A''" "unit_id b = ''B''" "unit_id c = ''C''"
    and us: "us = [a, b, c] \<or> us = [a, c, b] \<or> us = [b, a, c] \<or> us = [b, c, a] \<or>
     us = [c, a, b] \<or> us = [c, b, a]"
    and seed: "seed_direct ds =
     [pair_key ''A'' ''B'' \<mapsto> 2, pair_key ''B'' ''C'' \<mapsto> 3,
      pair_key ''B'' ''A'' \<mapsto> 1 / 2, pair_key ''C'' ''B'' \<mapsto> 1 / 3]"
  shows "closure_table us ds (pair_key ''C'' ''A'') = Some (1 / 6)"
  using us
proof (elim disjE)
  assume "us = [a, b, c]"
  then show ?thesis by (simp add: closure_eval ids seed)
next
  assume "us = [a, c, b]"
  then show ?thesis by (simp add: closure_eval ids seed)
next
  assume "us = [b, a, c]"
  then show ?thesis by (simp add: closure_eval ids seed)
next
  assume "us = [b, c, a]"
  then show ?thesis by (simp add: closure_eval ids seed)
next
  assume "us = [c, a, b]"
  then show ?thesis by (simp add: closure_eval ids seed)
next
  assume "us = [c, b, a]"
  then show ?thesis by (simp add: closure_eval ids seed)
qed

subsection \<open>The pairs of the returned list\<close>

lemma emit_pairs:
  "map pair_of (fst (emit uuid sh m ex f acc t)) =
     map pair_of (fst acc) @
     (if unit_id f \<noteq> unit_id t \<and> m (pair_key (unit_id f) (unit_id t)) \<noteq> None
      then [(unit_id f, unit_id t)] else [])"
proof (cases "find (same_pair (unit_id f) (unit_id t)) ex")
  case None
  then show ?thesis
    by (auto simp: emit_cases pair_of_def new_conversion_def)
next
  case (Some e)
  from find_in_set [OF Some] have "pair_of e = (unit_id f, unit_id t)"
    by (simp add: same_pair_def pair_of_def)
  with Some show ?thesis
    by (auto simp: emit_cases)
qed

lemma emit_from_pairs:
  "map pair_of (fst (foldl (emit uuid sh m ex f) acc ts)) =
     map pair_of (fst acc) @
     map (\<lambda>t. (unit_id f, unit_id t))
       (filter (\<lambda>t. unit_id f \<noteq> unit_id t \<and> m (pair_key (unit_id f) (unit_id t)) \<noteq> None) ts)"
  by (induction ts rule: rev_induct) (simp_all add: emit_pairs)

lemma emit_outer_pairs:
  "map pair_of (fst (foldl (emit_from uuid sh m ex us) acc fs)) =
     map pair_of (fst acc) @
     concat (map (\<lambda>f. map (\<lambda>t. (unit_id f, unit_id t))
       (filter (\<lambda>t. unit_id f \<noteq> unit_id t \<and> m (pair_key (unit_id f) (unit_id t)) \<noteq> None) us))
       fs)"
proof (induction fs rule: rev_induct)
  case Nil
  show ?case by simp
next
  case (snoc f fs)
  show ?case
    unfolding emit_from_snoc by (simp add: emit_from_pairs snoc.IH)
qed

lemma distinct_rows:
  assumes "distinct (map unit_id fs)" "distinct (map unit_id us)"
  shows "distinct (concat (map (\<lambda>f. map (\<lambda>t. (unit_id f, unit_id t)) (filter (Q f) us)) fs))"
  using assms(1)
proof (induction fs)
  case Nil
  show ?case by simp
next
  case (Cons f fs)
  have row: "distinct (map (\<lambda>t. (unit_id f, unit_id t)) (filter (Q f) us))"
  proof -
    have "distinct (map unit_id (filter (Q f) us))"
      using assms(2) by (rule distinct_map_filter)
    then have "distinct (map (Pair (unit_id f)) (map unit_id (filter (Q f) us)))"
      by (simp add: distinct_map inj_on_def)
    then show ?thesis by (simp add: comp_def)
  qed
  have rest: "distinct (concat (map (\<lambda>f. map (\<lambda>t. (unit_id f, unit_id t)) (filter (Q f) us)) fs))"
    using Cons by simp
  have "unit_id f \<notin> unit_id ` set fs" using Cons.prems by simp
  then have disj: "set (map (\<lambda>t. (unit_id f, unit_id t)) (filter (Q f) us)) \<inter>
      set (concat (map (\<lambda>f. map (\<lambda>t. (unit_id f, unit_id t)) (filter (Q f) us)) fs)) = {}"
    by auto
  from row rest disj show ?case by simp
qed

lemma gcc_pairs:
  assumes "2 \<le> length us"
  shows "map pair_of (generateCompleteConversions uuid sh us cs) =
     concat (map (\<lambda>f. map (\<lambda>t. (unit_id f, unit_id t))
       (filter (\<lambda>t. unit_id f \<noteq> unit_id t \<and>
          closure_table us cs (pair_key (unit_id f) (unit_id t)) \<noteq> None) us)) us)"
  using assms
  by (simp add: generateCompleteConversions_def emit_all_def emit_outer_pairs)

lemma gcc_distinct_pairs:
  assumes "2 \<le> length us" "distinct (map unit_id us)"
  shows "distinct (map pair_of (generateCompleteConversions uuid sh us cs))"
  unfolding gcc_pairs [OF assms(1)] using assms(2) by (intro distinct_rows)

lemma gcc_proper_pairs:
  assumes "2 \<le> length us" "e \<in> set (generateCompleteConversions uuid sh us cs)"
  shows "fromUnitId e \<noteq> toUnitId e \<and> fromUnitId e \<in> unit_id ` set us \<and>
     toUnitId e \<in> unit_id ` set us"
proof -
  from assms(2) have "pair_of e \<in> set (map pair_of (generateCompleteConversions uuid sh us cs))"
    by simp
  then show ?thesis
    unfolding gcc_pairs [OF assms(1)] by (auto simp: pair_of_def)
qed

lemma expectedCount_groupUnits_ge2:
  "length cs < expectedCount us \<Longrightarrow> 2 \<le> length us"
  by (cases us; cases "tl us") (auto simp: expectedCount_def)

section \<open>Properties of validateConversions\<close>






section \<open>The closure example\<close>

text \<open>
  C1: take three units with the ids A, B and C, listed in any order, and a direct list
  holding exactly an edge from A to B with multiplier 2 and an edge from B to C with
  multiplier 3 (in any order, whatever their other fields): the list that
  generateCompleteConversions returns contains an edge from A to C with multiplier 6. When
  the direct list holds in addition an edge from B to A with multiplier 1/2 and an edge
  from C to B with multiplier 1/3, the returned list contains an edge from C to A, and
  every edge from C to A in it has the multiplier 1/6.
\<close>

theorem closure_example:
  assumes ids: "unit_id a = ''A''" "unit_id b = ''B''" "unit_id c = ''C''"
    and us: "length us = 3" "set us = {a, b, c}"
    and ab: "fromUnitId ab = ''A''" "toUnitId ab = ''B''" "multiplier ab = 2"
    and bc: "fromUnitId bc = ''B''" "toUnitId bc = ''C''" "multiplier bc = 3"
    and ba: "fromUnitId ba = ''B''" "toUnitId ba = ''A''" "multiplier ba = 1 / 2"
    and cb: "fromUnitId cb = ''C''" "toUnitId cb = ''B''" "multiplier cb = 1 / 3"
    and two: "set direct2 = {ab, bc}"
    and four: "set direct4 = {ab, bc, ba, cb}"
  shows "(\<exists>e\<in>set (generateCompleteConversions uuid show_number us direct2).
            fromUnitId e = ''A'' \<and> toUnitId e = ''C'' \<and> multiplier e = 6) \<and>
         (\<exists>e\<in>set (generateCompleteConversions uuid show_number us direct4).
            fromUnitId e = ''C'' \<and> toUnitId e = ''A'') \<and>
         (\<forall>e\<in>set (generateCompleteConversions uuid show_number us direct4).
            fromUnitId e = ''C'' \<and> toUnitId e = ''A'' \<longrightarrow> multiplier e = 1 / 6)"
proof -
  have distinct: "a \<noteq> b" "a \<noteq> c" "b \<noteq> c"
    using ids by auto
  have orders: "us = [a, b, c] \<or> us = [a, c, b] \<or> us = [b, a, c] \<or> us = [b, c, a] \<or>
     us = [c, a, b] \<or> us = [c, b, a]"
    using us distinct by (rule three_orders)
  have len: "2 \<le> length us" using us(1) by simp
  have mem: "a \<in> set us" "c \<in> set us" using us(2) by simp_all
  have t2: "closure_table us direct2 (pair_key (unit_id a) (unit_id c)) = Some 6"
    using closure_two [OF ids orders seed_two [OF ab bc two]] by (simp add: ids)
  have t4: "closure_table us direct4 (pair_key ''C'' ''A'') = Some (1 / 6)"
    by (rule closure_four [OF ids orders seed_four [OF ab bc ba cb four]])
  have none2: "find (same_pair (unit_id a) (unit_id c)) direct2 = None"
    using ab bc by (auto simp: find_None_iff two same_pair_def ids)
  have none4: "\<forall>d\<in>set direct4. \<not> same_pair ''C'' ''A'' d"
    using ab bc ba cb by (auto simp: four same_pair_def)
  then have none4': "find (same_pair (unit_id c) (unit_id a)) direct4 = None"
    by (simp add: find_None_iff ids)
  have "\<exists>n. new_conversion uuid show_number n a c 6
      \<in> set (generateCompleteConversions uuid show_number us direct2)"
    using len mem _ t2 none2 by (rule gcc_new_edge) (simp add: ids)
  then have first: "\<exists>e\<in>set (generateCompleteConversions uuid show_number us direct2).
      fromUnitId e = ''A'' \<and> toUnitId e = ''C'' \<and> multiplier e = 6"
    by (force simp: new_conversion_def ids)
  have "\<exists>n. new_conversion uuid show_number n c a (1 / 6)
      \<in> set (generateCompleteConversions uuid show_number us direct4)"
    using len mem(2,1) _ _ none4' by (rule gcc_new_edge) (simp_all add: ids t4)
  then have second: "\<exists>e\<in>set (generateCompleteConversions uuid show_number us direct4).
      fromUnitId e = ''C'' \<and> toUnitId e = ''A''"
    by (force simp: new_conversion_def ids)
  have third: "\<forall>e\<in>set (generateCompleteConversions uuid show_number us direct4).
      fromUnitId e = ''C'' \<and> toUnitId e = ''A'' \<longrightarrow> multiplier e = 1 / 6"
  proof (intro ballI impI)
    fix e
    assume e: "e \<in> set (generateCompleteConversions uuid show_number us direct4)"
      and ca: "fromUnitId e = ''C'' \<and> toUnitId e = ''A''"
    have "closure_table us direct4 (pair_key (fromUnitId e) (toUnitId e)) = Some (multiplier e)"
      using len e none4 by (intro gcc_edge_multiplier) (simp_all add: ca)
    with t4 ca show "multiplier e = 1 / 6" by simp
  qed
  from first second third show ?thesis by blast
qed

theorem closure_example_witness:
  "(\<exists>e\<in>set (generateCompleteConversions uuid_seq show_plain
            [unit_of ''A'', unit_of ''B'', unit_of ''C'']
            [edge ''1'' ''A'' ''B'' 2, edge ''2'' ''B'' ''C'' 3]).
      fromUnitId e = ''A'' \<and> toUnitId e = ''C'' \<and> multiplier e = 6) \<and>
   (\<exists>e\<in>set (generateCompleteConversions uuid_seq show_plain
            [unit_of ''A'', unit_of ''B'', unit_of ''C'']
            [edge ''1'' ''A'' ''B'' 2, edge ''2'' ''B'' ''C'' 3,
             edge ''3'' ''B'' ''A'' (1 / 2), edge ''4'' ''C'' ''B'' (1 / 3)]).
      fromUnitId e = ''C'' \<and> toUnitId e = ''A'' \<and> multiplier e = 1 / 6)"
proof -
  have "(\<exists>e\<in>set (generateCompleteConversions uuid_seq show_plain
            [unit_of ''A'', unit_of ''B'', unit_of ''C'']
            [edge ''1'' ''A'' ''B'' 2, edge ''2'' ''B'' ''C'' 3]).
      fromUnitId e = ''A'' \<and> toUnitId e = ''C'' \<and> multiplier e = 6) \<and>
   (\<exists>e\<in>set (generateCompleteConversions uuid_seq show_plain
            [unit_of ''A'', unit_of ''B'', unit_of ''C'']
            [edge ''1'' ''A'' ''B'' 2, edge ''2'' ''B'' ''C'' 3,
             edge ''3'' ''B'' ''A'' (1 / 2), edge ''4'' ''C'' ''B'' (1 / 3)]).
      fromUnitId e = ''C'' \<and> toUnitId e = ''A'') \<and>
   (\<forall>e\<in>set (generateCompleteConversions uuid_seq show_plain
            [unit_of ''A'', unit_of ''B'', unit_of ''C'']
            [edge ''1'' ''A'' ''B'' 2, edge ''2'' ''B'' ''C'' 3,
             edge ''3'' ''B'' ''A'' (1 / 2), edge ''4'' ''C'' ''B'' (1 / 3)]).
      fromUnitId e = ''C'' \<and> toUnitId e = ''A'' \<longrightarrow> multiplier e = 1 / 6)"
    by (rule closure_example [where a = "unit_of ''A''" and b = "unit_of ''B''"
          and c = "unit_of ''C''" and ab = "edge ''1'' ''A'' ''B'' 2"
          and bc = "edge ''2'' ''B'' ''C'' 3" and ba = "edge ''3'' ''B'' ''A'' (1 / 2)"
          and cb = "edge ''4'' ''C'' ''B'' (1 / 3)"])
      (auto simp: unit_of_def edge_def)
  then show ?thesis by blast
qed

section \<open>First assignment wins\<close>




section \<open>Direct edges are kept\<close>

lemma find_first_of_distinct:
  assumes "distinct (map f xs)" "x \<in> set xs"
  shows "find (\<lambda>y. f y = f x) xs = Some x"
  using assms by (induction xs) (auto simp: image_iff)

text \<open>
  C10, as stated, fails: when the input list holds two equations for the same ordered
  pair, the closure returns the first of them only.
\<close>

theorem closure_drops_second_equation:
  "generateCompleteConversions uuid_seq show_plain [unit_of ''A'', unit_of ''B'']
     [edge ''1'' ''A'' ''B'' 2, edge ''2'' ''A'' ''B'' 5] = [edge ''1'' ''A'' ''B'' 2] \<and>
   edge ''2'' ''A'' ''B'' 5 \<noteq> edge ''1'' ''A'' ''B'' 2"
  by (simp add: generateCompleteConversions_def emit_all_def emit_from_def emit_def
      closure_table_def loop_k_def loop_i_def loop_j_def relax_def seed_table_def seed_direct_def
      direct_step_def identity_step_def edge_def unit_of_def same_pair_def pair_key_def
      separator_def)

text \<open>
  C10, amended: an equation of the input list that is the first one of the list for its
  pair (fromUnitId, toUnitId), whose two ids are distinct and both ids of units of the
  given list, is an element of the returned list, as the same record; this is every such
  equation when the input list has at most one equation per ordered pair. Every element
  of the returned list is an equation of the input list or a new equation for a pair of
  units for which the input list has no equation.
\<close>

theorem closure_keeps_direct_edges:
  "(find (same_pair (fromUnitId e) (toUnitId e)) existing = Some e \<and>
    fromUnitId e \<noteq> toUnitId e \<and>
    fromUnitId e \<in> unit_id ` set units \<and> toUnitId e \<in> unit_id ` set units \<longrightarrow>
      e \<in> set (generateCompleteConversions uuid show_number units existing)) \<and>
   (distinct (map (\<lambda>c. (fromUnitId c, toUnitId c)) existing) \<and> e \<in> set existing \<longrightarrow>
      find (same_pair (fromUnitId e) (toUnitId e)) existing = Some e) \<and>
   (x \<in> set (generateCompleteConversions uuid show_number units existing) \<longrightarrow>
      x \<in> set existing \<or>
      (find (same_pair (fromUnitId x) (toUnitId x)) existing = None \<and>
       (\<exists>n. \<exists>f\<in>set units. \<exists>t\<in>set units.
          x = new_conversion uuid show_number n f t
                (the (closure_table units existing (pair_key (unit_id f) (unit_id t)))))))"
proof -
  have same: "same_pair (fromUnitId e) (toUnitId e) =
      (\<lambda>y. (fromUnitId y, toUnitId y) = (fromUnitId e, toUnitId e))"
    by (rule ext) (simp add: same_pair_def)
  have first: "distinct (map (\<lambda>c. (fromUnitId c, toUnitId c)) existing) \<and> e \<in> set existing \<longrightarrow>
      find (same_pair (fromUnitId e) (toUnitId e)) existing = Some e"
    unfolding same using find_first_of_distinct [of "\<lambda>c. (fromUnitId c, toUnitId c)" existing e]
    by blast
  show ?thesis
    using gcc_keeps_first [of e existing units uuid show_number]
      gcc_only_adds [of x uuid show_number units existing] first
    by blast
qed

theorem closure_keeps_direct_edges_witness:
  "edge ''1'' ''A'' ''B'' 2 \<in> set (generateCompleteConversions uuid_seq show_plain
      [unit_of ''A'', unit_of ''B'', unit_of ''C'']
      [edge ''1'' ''A'' ''B'' 2, edge ''2'' ''B'' ''C'' 3])"
proof -
  let ?us = "[unit_of ''A'', unit_of ''B'', unit_of ''C'']"
  let ?ds = "[edge ''1'' ''A'' ''B'' 2, edge ''2'' ''B'' ''C'' 3]"
  let ?e = "edge ''1'' ''A'' ''B'' 2"
  note T = closure_keeps_direct_edges [where e = ?e and existing = ?ds and units = ?us
      and uuid = uuid_seq and show_number = show_plain]
  have d: "distinct (map (\<lambda>c. (fromUnitId c, toUnitId c)) ?ds) \<and> ?e \<in> set ?ds"
    by (simp add: edge_def)
  with T have "find (same_pair (fromUnitId ?e) (toUnitId ?e)) ?ds = Some ?e" by blast
  moreover have "fromUnitId ?e \<noteq> toUnitId ?e \<and>
      fromUnitId ?e \<in> unit_id ` set ?us \<and> toUnitId ?e \<in> unit_id ` set ?us"
    by (simp add: edge_def unit_of_def)
  ultimately show ?thesis using T by blast
qed

section \<open>Properties of the conversion collector\<close>

lemma find_symbol_None:
  "find (\<lambda>u. Some (JStr (symbol u)) = Some (JStr s)) G = None \<longleftrightarrow> \<not> list_ex (\<lambda>t. symbol t = s) G"
  by (auto simp: find_None_iff list_ex_iff)

lemma validate_accepted:
  assumes "accepts conv u G"
  shows "validateConversion conv u G = Inr (Some (accepted_value conv u))"
proof -
  from assms obtain s r e where f: "field_of conv ''from'' = Some (JStr (symbol u))"
      "symbol u \<noteq> []"
    and t: "field_of conv ''to'' = Some (JStr s)" "s \<noteq> []" "list_ex (\<lambda>t. symbol t = s) G"
    and m: "field_of conv ''multiplier'' = Some (JNum (Finite r))" "0 < r"
    and q: "field_of conv ''equation'' = Some (JStr e)" "CHR ''x'' \<in> set e"
    by (auto simp: accepts_def split: option.splits json.splits jsnum.splits)
  have nn: "conv \<noteq> JNull" using f by auto
  have e: "e \<noteq> []" using q by auto
  have fnd: "find (\<lambda>u. Some (JStr (symbol u)) = field_of conv ''to'') G \<noteq> None"
    using t by (auto simp: find_None_iff list_ex_iff)
  show ?thesis
    using nn e f t m q fnd
    by (simp add: validateConversion_def accepted_value_def)
qed

lemma validate_Some_accepts:
  assumes "validateConversion conv u G = Inr (Some v)"
  shows "accepts conv u G"
proof -
  have nn: "conv \<noteq> JNull" using assms by (auto simp: validateConversion_def)
  have c1: "truthy (field_of conv ''from'')" "truthy (field_of conv ''to'')"
      "is_number (field_of conv ''multiplier'')" "truthy (field_of conv ''equation'')"
    using assms nn by (auto simp: validateConversion_def split: if_splits)
  have c2: "field_of conv ''from'' = Some (JStr (symbol u))"
      "find (\<lambda>u. Some (JStr (symbol u)) = field_of conv ''to'') G \<noteq> None"
    using assms nn c1 by (auto simp: validateConversion_def split: if_splits)
  have "\<exists>n. field_of conv ''multiplier'' = Some (JNum n)"
  proof (cases "field_of conv ''multiplier''")
    case None
    with c1(3) show ?thesis by simp
  next
    case (Some a)
    with c1(3) show ?thesis by (cases a) auto
  qed
  then obtain n where n: "field_of conv ''multiplier'' = Some (JNum n)" by blast
  have c3: "\<not> le_zero n" "isFinite n" "includes_x (field_of conv ''equation'') = Inr True"
      "\<exists>q. trim_js (field_of conv ''equation'') = Inr q"
    using assms nn c1 c2 n
    by (auto simp: validateConversion_def split: if_splits sum.splits)
  have "\<exists>e. field_of conv ''equation'' = Some (JStr e)"
  proof (cases "field_of conv ''equation''")
    case None
    with c3(4) show ?thesis by simp
  next
    case (Some a)
    with c3(4) show ?thesis by (cases a) auto
  qed
  then obtain e where e: "field_of conv ''equation'' = Some (JStr e)" by blast
  from c3(1,2) obtain r where r: "n = Finite r" "0 < r"
    by (cases n) auto
  from c2(2) obtain t where "t \<in> set G" "Some (JStr (symbol t)) = field_of conv ''to''"
    by (auto simp: find_None_iff)
  then have t: "field_of conv ''to'' = Some (JStr (symbol t))" "list_ex (\<lambda>x. symbol x = symbol t) G"
    by (auto simp: list_ex_iff)
  have "symbol u \<noteq> []" "symbol t \<noteq> []" using c1 c2 t by auto
  then show ?thesis
    using c2 t n r e c3 by (simp add: accepts_def)
qed

lemma validate_no_error:
  assumes "conv \<noteq> JNull" "text_or_absent (field_of conv ''equation'')"
  shows "\<exists>r. validateConversion conv u G = Inr r"
proof (cases "field_of conv ''equation''")
  case None
  with assms(1) show ?thesis by (simp add: validateConversion_def)
next
  case (Some a)
  with assms(2) obtain e where e: "field_of conv ''equation'' = Some (JStr e)"
    by (cases a) (auto simp: text_or_absent_def)
  show ?thesis
    using assms(1)
    by (simp add: validateConversion_def e split: option.splits json.splits)
qed

lemma validate_dropped:
  assumes "\<not> accepts conv u G" "conv \<noteq> JNull" "text_or_absent (field_of conv ''equation'')"
  shows "validateConversion conv u G = Inr None"
proof -
  from validate_no_error [OF assms(2,3)] obtain r where r: "validateConversion conv u G = Inr r"
    by blast
  show ?thesis
  proof (cases r)
    case None
    with r show ?thesis by simp
  next
    case (Some v)
    with r assms(1) show ?thesis using validate_Some_accepts by blast
  qed
qed

lemma accepts_target:
  assumes "accepts conv u G"
  shows "\<exists>t. find (\<lambda>x. symbol x = v_to (accepted_value conv u)) G = Some t"
proof -
  from assms obtain s where "field_of conv ''to'' = Some (JStr s)" "list_ex (\<lambda>t. symbol t = s) G"
    by (auto simp: accepts_def split: option.splits json.splits)
  then have "find (\<lambda>x. symbol x = v_to (accepted_value conv u)) G \<noteq> None"
    by (auto simp: accepted_value_def find_None_iff list_ex_iff)
  then show ?thesis by blast
qed

lemma collect_example:
  "collect_group all_pairs_oracle uuid_seq [unit_of ''A'', unit_of ''B''] ''G'' []
     [unit_of ''A'', unit_of ''B''] =
   Inr [\<lparr>conv_id = [], fromUnitId = ''A'', toUnitId = ''A'', multiplier = 1,
          equation = ''x * 1'', conv_description = ''A to A''\<rparr>,
        \<lparr>conv_id = ''u'', fromUnitId = ''A'', toUnitId = ''B'', multiplier = 1,
          equation = ''x * 1'', conv_description = ''A to B''\<rparr>,
        \<lparr>conv_id = ''uu'', fromUnitId = ''B'', toUnitId = ''A'', multiplier = 1,
          equation = ''x * 1'', conv_description = ''B to A''\<rparr>,
        \<lparr>conv_id = ''uuu'', fromUnitId = ''B'', toUnitId = ''B'', multiplier = 1,
          equation = ''x * 1'', conv_description = ''B to B''\<rparr>]"
proof -
  have b: "batches 20 [unit_of ''A'', unit_of ''B''] = [[unit_of ''A'', unit_of ''B'']]"
    by (simp add: batches.simps)
  show ?thesis
    unfolding collect_group_def b
    by (simp add: request_unit_def siblings_def all_pairs_oracle_def validateConversion_def
        raw_edge_def unit_of_def trim_def is_space_def merge_unit_def merge_one_def
        merged_conversion_def same_pair_def uuid_seq_def numeral_2_eq_2 numeral_3_eq_3)
qed

lemma validate_all_accepted:
  assumes "\<forall>c\<in>set cs. c \<noteq> JNull \<and> text_or_absent (field_of c ''equation'')"
  shows "validate_all cs u G =
     Inr (map (\<lambda>c. accepted_value c u) (filter (\<lambda>c. accepts c u G) cs))"
  using assms
proof (induction cs)
  case Nil
  show ?case by simp
next
  case (Cons c cs)
  then have ih: "validate_all cs u G =
     Inr (map (\<lambda>c. accepted_value c u) (filter (\<lambda>c. accepts c u G) cs))"
    by simp
  show ?case
  proof (cases "accepts c u G")
    case True
    then show ?thesis by (simp add: validate_accepted ih)
  next
    case False
    with Cons.prems have "validateConversion c u G = Inr None"
      by (intro validate_dropped) simp_all
    with False show ?thesis by (simp add: ih)
  qed
qed

text \<open>
  C5 fails on the code: the request for a unit is made for its siblings, but the answer
  is validated against all units of the group, and the merge loop does not compare the
  target with the requesting unit. An edge whose target is the symbol of the requesting
  unit itself, which is no sibling, therefore passes the validation and is merged as an
  equation from the unit to itself.
\<close>

theorem self_edge_merged:
  "\<not> spec_accepts (raw_edge ''A'' ''A'' 1 ''x * 1'') (unit_of ''A'')
       (siblings [unit_of ''A'', unit_of ''B''] (unit_of ''A'')) \<and>
   validateConversion (raw_edge ''A'' ''A'' 1 ''x * 1'') (unit_of ''A'')
       [unit_of ''A'', unit_of ''B''] =
     Inr (Some \<lparr>v_from = ''A'', v_to = ''A'', v_multiplier = 1, v_equation = ''x * 1''\<rparr>) \<and>
   fst (merge_one uuid_seq [unit_of ''A'', unit_of ''B''] (unit_of ''A'') ([], 0)
         \<lparr>v_from = ''A'', v_to = ''A'', v_multiplier = 1, v_equation = ''x * 1''\<rparr>) =
     [\<lparr>conv_id = [], fromUnitId = ''A'', toUnitId = ''A'', multiplier = 1,
       equation = ''x * 1'', conv_description = ''A to A''\<rparr>]"
  by (simp add: spec_accepts_def siblings_def validateConversion_def raw_edge_def unit_of_def
      trim_def is_space_def merge_one_def merged_conversion_def same_pair_def uuid_seq_def)

theorem self_edge_merged_witness:
  "validateConversion (raw_edge ''A'' ''A'' 1 ''x * 1'') (unit_of ''A'')
       [unit_of ''A'', unit_of ''B''] =
     Inr (Some \<lparr>v_from = ''A'', v_to = ''A'', v_multiplier = 1, v_equation = ''x * 1''\<rparr>)"
  using self_edge_merged by blast

text \<open>
  What the validation and the merge loop do with one edge. An edge object returned by
  the Oracle for the unit u passes the validation exactly when its source is a string
  equal to the symbol of u and not empty, its target is a non-empty string that is the
  symbol of some unit of the group (u itself included), its multiplier is a positive
  finite number and its equation is a string that contains the letter x. A validated
  edge is merged, as one new equation from u to the first unit of the group with the
  target symbol, exactly when the list has no equation for that pair of ids yet. An edge
  object whose equation is a string or is absent and that fails a check is dropped: the
  validation returns null, without an error, and the answer of the Oracle is walked
  through once. Whatever the specification accepts among units with non-empty symbols,
  the code accepts.
\<close>

theorem oracle_edge_merged_iff:
  "(accepts conv u G \<longleftrightarrow> (\<exists>v. validateConversion conv u G = Inr (Some v))) \<and>
   (accepts conv u G \<longrightarrow>
      validateConversion conv u G = Inr (Some (accepted_value conv u)) \<and>
      (\<exists>t. find (\<lambda>x. symbol x = v_to (accepted_value conv u)) G = Some t \<and>
           merge_one uuid G u (L, n) (accepted_value conv u) =
             (if list_ex (same_pair (unit_id u) (unit_id t)) L then (L, n)
              else (L @ [merged_conversion uuid n u t (accepted_value conv u)], Suc n)))) \<and>
   (\<not> accepts conv u G \<and> conv \<noteq> JNull \<and> text_or_absent (field_of conv ''equation'') \<longrightarrow>
      validateConversion conv u G = Inr None) \<and>
   ((\<forall>c\<in>set cs. c \<noteq> JNull \<and> text_or_absent (field_of c ''equation'')) \<longrightarrow>
      validate_all cs u G =
        Inr (map (\<lambda>c. accepted_value c u) (filter (\<lambda>c. accepts c u G) cs))) \<and>
   (spec_accepts conv u (siblings G u) \<and> symbol u \<noteq> [] \<and> (\<forall>t\<in>set G. symbol t \<noteq> []) \<longrightarrow>
      accepts conv u G)"
proof -
  have iff: "accepts conv u G \<longleftrightarrow> (\<exists>v. validateConversion conv u G = Inr (Some v))"
    using validate_accepted validate_Some_accepts by blast
  have merge: "accepts conv u G \<longrightarrow>
      validateConversion conv u G = Inr (Some (accepted_value conv u)) \<and>
      (\<exists>t. find (\<lambda>x. symbol x = v_to (accepted_value conv u)) G = Some t \<and>
           merge_one uuid G u (L, n) (accepted_value conv u) =
             (if list_ex (same_pair (unit_id u) (unit_id t)) L then (L, n)
              else (L @ [merged_conversion uuid n u t (accepted_value conv u)], Suc n)))"
  proof
    assume a: "accepts conv u G"
    from accepts_target [OF a] obtain t
      where t: "find (\<lambda>x. symbol x = v_to (accepted_value conv u)) G = Some t" by blast
    then have "merge_one uuid G u (L, n) (accepted_value conv u) =
             (if list_ex (same_pair (unit_id u) (unit_id t)) L then (L, n)
              else (L @ [merged_conversion uuid n u t (accepted_value conv u)], Suc n))"
      by (simp add: merge_one_def)
    with t validate_accepted [OF a] show "validateConversion conv u G =
        Inr (Some (accepted_value conv u)) \<and>
      (\<exists>t. find (\<lambda>x. symbol x = v_to (accepted_value conv u)) G = Some t \<and>
           merge_one uuid G u (L, n) (accepted_value conv u) =
             (if list_ex (same_pair (unit_id u) (unit_id t)) L then (L, n)
              else (L @ [merged_conversion uuid n u t (accepted_value conv u)], Suc n)))"
      by blast
  qed
  have drop: "\<not> accepts conv u G \<and> conv \<noteq> JNull \<and>
      text_or_absent (field_of conv ''equation'') \<longrightarrow> validateConversion conv u G = Inr None"
    using validate_dropped by blast
  have all: "(\<forall>c\<in>set cs. c \<noteq> JNull \<and> text_or_absent (field_of c ''equation'')) \<longrightarrow>
      validate_all cs u G =
        Inr (map (\<lambda>c. accepted_value c u) (filter (\<lambda>c. accepts c u G) cs))"
    using validate_all_accepted by blast
  have spec: "spec_accepts conv u (siblings G u) \<and> symbol u \<noteq> [] \<and> (\<forall>t\<in>set G. symbol t \<noteq> []) \<longrightarrow>
      accepts conv u G"
    by (auto simp: spec_accepts_def accepts_def siblings_def list_ex_iff
        split: option.splits json.splits jsnum.splits)
  from iff merge drop all spec show ?thesis by blast
qed

theorem oracle_edge_merged_iff_witness:
  "validateConversion (raw_edge ''A'' ''B'' 2 '' x * 2 '') (unit_of ''A'')
       [unit_of ''A'', unit_of ''B''] =
     Inr (Some \<lparr>v_from = ''A'', v_to = ''B'', v_multiplier = 2, v_equation = ''x * 2''\<rparr>) \<and>
   validateConversion (raw_edge ''A'' ''C'' 2 ''x * 2'') (unit_of ''A'')
       [unit_of ''A'', unit_of ''B''] = Inr None \<and>
   validate_all [raw_edge ''A'' ''B'' 2 '' x * 2 '', raw_edge ''A'' ''B'' (- 1) ''x'']
       (unit_of ''A'') [unit_of ''A'', unit_of ''B''] =
     Inr [\<lparr>v_from = ''A'', v_to = ''B'', v_multiplier = 2, v_equation = ''x * 2''\<rparr>]"
proof -
  let ?G = "[unit_of ''A'', unit_of ''B'']"
  let ?good = "raw_edge ''A'' ''B'' 2 '' x * 2 ''"
  have a: "accepts ?good (unit_of ''A'') ?G"
    by (simp add: accepts_def raw_edge_def unit_of_def)
  have v: "accepted_value ?good (unit_of ''A'') =
      \<lparr>v_from = ''A'', v_to = ''B'', v_multiplier = 2, v_equation = ''x * 2''\<rparr>"
    by (simp add: accepted_value_def raw_edge_def unit_of_def trim_def is_space_def)
  have n: "\<not> accepts (raw_edge ''A'' ''C'' 2 ''x * 2'') (unit_of ''A'') ?G \<and>
      raw_edge ''A'' ''C'' 2 ''x * 2'' \<noteq> JNull \<and>
      text_or_absent (field_of (raw_edge ''A'' ''C'' 2 ''x * 2'') ''equation'')"
    by (simp add: accepts_def raw_edge_def unit_of_def text_or_absent_def)
  have w: "\<forall>c\<in>set [?good, raw_edge ''A'' ''B'' (- 1) ''x'']. c \<noteq> JNull \<and>
      text_or_absent (field_of c ''equation'')"
    by (simp add: raw_edge_def text_or_absent_def)
  have f: "filter (\<lambda>c. accepts c (unit_of ''A'') ?G) [?good, raw_edge ''A'' ''B'' (- 1) ''x''] =
      [?good]"
    using a by (simp add: accepts_def raw_edge_def unit_of_def)
  from oracle_edge_merged_iff [of ?good "unit_of ''A''" ?G] a v
  have 1: "validateConversion ?good (unit_of ''A'') ?G =
     Inr (Some \<lparr>v_from = ''A'', v_to = ''B'', v_multiplier = 2, v_equation = ''x * 2''\<rparr>)"
    by simp
  from oracle_edge_merged_iff [of "raw_edge ''A'' ''C'' 2 ''x * 2''" "unit_of ''A''" ?G] n
  have 2: "validateConversion (raw_edge ''A'' ''C'' 2 ''x * 2'') (unit_of ''A'') ?G = Inr None"
    by blast
  from oracle_edge_merged_iff [where cs = "[?good, raw_edge ''A'' ''B'' (- 1) ''x'']"
      and u = "unit_of ''A''" and G = ?G] w
  have "validate_all [?good, raw_edge ''A'' ''B'' (- 1) ''x''] (unit_of ''A'') ?G =
      Inr (map (\<lambda>c. accepted_value c (unit_of ''A''))
        (filter (\<lambda>c. accepts c (unit_of ''A'') ?G) [?good, raw_edge ''A'' ''B'' (- 1) ''x'']))"
    by blast
  then have 3: "validate_all [?good, raw_edge ''A'' ''B'' (- 1) ''x''] (unit_of ''A'') ?G =
     Inr [\<lparr>v_from = ''A'', v_to = ''B'', v_multiplier = 2, v_equation = ''x * 2''\<rparr>]"
    by (simp only: f v list.map)
  from 1 2 3 show ?thesis by blast
qed

section \<open>The bound on the number of equations\<close>

text \<open>
  C2 fails on the code, in the merge loop of the conversion generator: for a group of two
  units whose Oracle answers name the requesting unit itself among the targets, the loop
  builds a list of four equations, two of them from a unit to itself, where N(N-1) is
  two.
\<close>

theorem merge_loop_exceeds_bound:
  "collect_group all_pairs_oracle uuid_seq [unit_of ''A'', unit_of ''B''] ''G'' []
     [unit_of ''A'', unit_of ''B''] =
   Inr [\<lparr>conv_id = [], fromUnitId = ''A'', toUnitId = ''A'', multiplier = 1,
          equation = ''x * 1'', conv_description = ''A to A''\<rparr>,
        \<lparr>conv_id = ''u'', fromUnitId = ''A'', toUnitId = ''B'', multiplier = 1,
          equation = ''x * 1'', conv_description = ''A to B''\<rparr>,
        \<lparr>conv_id = ''uu'', fromUnitId = ''B'', toUnitId = ''A'', multiplier = 1,
          equation = ''x * 1'', conv_description = ''B to A''\<rparr>,
        \<lparr>conv_id = ''uuu'', fromUnitId = ''B'', toUnitId = ''B'', multiplier = 1,
          equation = ''x * 1'', conv_description = ''B to B''\<rparr>] \<and>
   expectedCount [unit_of ''A'', unit_of ''B''] = 2"
  using collect_example by (simp add: expectedCount_def)

text \<open>
  What holds of the closure: the list that it returns for a group of N units, N at least
  two, has at most N(N-1) equations, each between two units of the group with distinct
  ids, and at most one per ordered pair of ids when the ids of the units are distinct.
  The closure pass over a group (ensureCompleteConversions) keeps a list that has at
  most N(N-1) equations within that bound, and it leaves a group whose list has N(N-1)
  equations or more exactly as it is.
\<close>

theorem closure_pass_bound:
  "(2 \<le> length us \<longrightarrow>
      length (generateCompleteConversions uuid show_number us cs) \<le> expectedCount us \<and>
      (distinct (map unit_id us) \<longrightarrow>
         distinct (map pair_of (generateCompleteConversions uuid show_number us cs))) \<and>
      (e \<in> set (generateCompleteConversions uuid show_number us cs) \<longrightarrow>
         fromUnitId e \<noteq> toUnitId e \<and> fromUnitId e \<in> unit_id ` set us \<and>
         toUnitId e \<in> unit_id ` set us)) \<and>
   (length (conversions g) \<le> expectedCount (groupUnits_of allUnits g) \<longrightarrow>
      length (conversions (fst (ensure_group uuid show_number allUnits g))) \<le>
        expectedCount (groupUnits_of allUnits g)) \<and>
   (expectedCount (groupUnits_of allUnits g) \<le> length (conversions g) \<longrightarrow>
      fst (ensure_group uuid show_number allUnits g) = g)"
proof -
  have a: "2 \<le> length us \<longrightarrow>
      length (generateCompleteConversions uuid show_number us cs) \<le> expectedCount us \<and>
      (distinct (map unit_id us) \<longrightarrow>
         distinct (map pair_of (generateCompleteConversions uuid show_number us cs))) \<and>
      (e \<in> set (generateCompleteConversions uuid show_number us cs) \<longrightarrow>
         fromUnitId e \<noteq> toUnitId e \<and> fromUnitId e \<in> unit_id ` set us \<and>
         toUnitId e \<in> unit_id ` set us)"
    using generateCompleteConversions_length gcc_distinct_pairs gcc_proper_pairs by blast
  have b: "length (conversions g) \<le> expectedCount (groupUnits_of allUnits g) \<longrightarrow>
      length (conversions (fst (ensure_group uuid show_number allUnits g))) \<le>
        expectedCount (groupUnits_of allUnits g)"
  proof (cases "length (conversions g) < expectedCount (groupUnits_of allUnits g)")
    case True
    then have "2 \<le> length (groupUnits_of allUnits g)"
      by (rule expectedCount_groupUnits_ge2)
    then have "length (generateCompleteConversions uuid show_number (groupUnits_of allUnits g)
        (conversions g)) \<le> expectedCount (groupUnits_of allUnits g)"
      by (rule generateCompleteConversions_length)
    with True show ?thesis by (simp add: ensure_group_def Let_def)
  next
    case False
    then show ?thesis by (simp add: ensure_group_def Let_def)
  qed
  have c: "expectedCount (groupUnits_of allUnits g) \<le> length (conversions g) \<longrightarrow>
      fst (ensure_group uuid show_number allUnits g) = g"
    by (simp add: ensure_group_def Let_def)
  from a b c show ?thesis by blast
qed

theorem closure_pass_bound_witness:
  "length (generateCompleteConversions uuid_seq show_plain
      [unit_of ''A'', unit_of ''B''] [edge ''1'' ''A'' ''B'' 2]) \<le> 2 \<and>
   fst (ensure_group uuid_seq show_plain [unit_of ''A'', unit_of ''B'']
      \<lparr>group_id = ''g'', group_name = ''G'', group_description = [],
        unitIds = [''A'', ''B''],
        conversions = [edge ''1'' ''A'' ''B'' 2, edge ''2'' ''B'' ''A'' (1 / 2)]\<rparr>) =
     \<lparr>group_id = ''g'', group_name = ''G'', group_description = [],
        unitIds = [''A'', ''B''],
        conversions = [edge ''1'' ''A'' ''B'' 2, edge ''2'' ''B'' ''A'' (1 / 2)]\<rparr>"
proof -
  let ?us = "[unit_of ''A'', unit_of ''B'']"
  let ?g = "\<lparr>group_id = ''g'', group_name = ''G'', group_description = [],
        unitIds = [''A'', ''B''],
        conversions = [edge ''1'' ''A'' ''B'' 2, edge ''2'' ''B'' ''A'' (1 / 2)]\<rparr>"
  note T = closure_pass_bound [where us = ?us and uuid = uuid_seq and show_number = show_plain
      and cs = "[edge ''1'' ''A'' ''B'' 2]" and g = ?g and allUnits = ?us]
  have l: "2 \<le> length ?us" by simp
  have ec: "expectedCount ?us = 2" by (simp add: expectedCount_def)
  have gu: "groupUnits_of ?us ?g = ?us" by (simp add: groupUnits_of_def unit_of_def)
  have full: "expectedCount (groupUnits_of ?us ?g) \<le> length (conversions ?g)"
    by (simp add: gu ec)
  from T l have "length (generateCompleteConversions uuid_seq show_plain ?us
      [edge ''1'' ''A'' ''B'' 2]) \<le> expectedCount ?us" by blast
  moreover from T full have "fst (ensure_group uuid_seq show_plain ?us ?g) = ?g" by blast
  ultimately show ?thesis by (simp add: ec)
qed

section \<open>Properties of loadCheckpoint\<close>

text \<open>
  C9: when the checkpoint file is missing, cannot be read, holds no JSON, or holds a JSON
  value without the field classificationComplete, loadCheckpoint returns the fresh
  checkpoint: classificationComplete false, no group classified, no group completed, no
  current group, no unit completed. It returns a value in every case, and the value is
  the one a run without any checkpoint file starts from.
\<close>

theorem loadCheckpoint_fresh:
  "(checkpoint_unusable parse file \<longrightarrow>
      loadCheckpoint parse now file = fresh_checkpoint now \<and>
      loadCheckpoint parse now file = loadCheckpoint parse now Missing) \<and>
   field_of (fresh_checkpoint now) ''classificationComplete'' = Some (JBool False) \<and>
   field_of (fresh_checkpoint now) ''groupsClassified'' = Some (JObj []) \<and>
   field_of (fresh_checkpoint now) ''conversionsGroupsCompleted'' = Some (JArr []) \<and>
   field_of (fresh_checkpoint now) ''currentConversionGroupId'' = Some JNull \<and>
   field_of (fresh_checkpoint now) ''unitsCompleted'' = Some (JArr [])"
proof -
  have "checkpoint_unusable parse file \<longrightarrow> loadCheckpoint parse now file = fresh_checkpoint now"
    by (auto simp: checkpoint_unusable_def loadCheckpoint_def
        split: checkpoint_file.splits option.splits)
  moreover have "loadCheckpoint parse now Missing = fresh_checkpoint now"
    by (simp add: loadCheckpoint_def)
  ultimately show ?thesis
    by (simp add: fresh_checkpoint_def)
qed

theorem loadCheckpoint_fresh_witness:
  "loadCheckpoint sample_parse ''t'' Missing = fresh_checkpoint ''t'' \<and>
   loadCheckpoint sample_parse ''t'' Unreadable = fresh_checkpoint ''t'' \<and>
   loadCheckpoint sample_parse ''t'' (Content ''{oops'') = fresh_checkpoint ''t'' \<and>
   loadCheckpoint sample_parse ''t'' (Content ''{}'') = fresh_checkpoint ''t'' \<and>
   loadCheckpoint sample_parse ''t'' (Content ''null'') = fresh_checkpoint ''t''"
proof -
  have u: "checkpoint_unusable sample_parse Missing"
      "checkpoint_unusable sample_parse Unreadable"
      "checkpoint_unusable sample_parse (Content ''{oops'')"
      "checkpoint_unusable sample_parse (Content ''{}'')"
      "checkpoint_unusable sample_parse (Content ''null'')"
    by (simp_all add: checkpoint_unusable_def sample_parse_def)
  show ?thesis
    using u loadCheckpoint_fresh [of sample_parse Missing "''t''"]
      loadCheckpoint_fresh [of sample_parse Unreadable "''t''"]
      loadCheckpoint_fresh [of sample_parse "Content ''{oops''" "''t''"]
      loadCheckpoint_fresh [of sample_parse "Content ''{}''" "''t''"]
      loadCheckpoint_fresh [of sample_parse "Content ''null''" "''t''"]
    by blast
qed

section \<open>Properties of the duplicate detector\<close>

lemma similarity_jaccard: "calculateStringSimilarity a b = jaccard_percent a b"
proof -
  let ?w1 = "words_of a" and ?w2 = "words_of b"
  have d: "distinct ?w1" by (simp add: words_of_def)
  have s1: "set ?w1 = word_set a" and s2: "set ?w2 = word_set b"
    by (simp_all add: words_of_def word_set_def)
  have "length (filter (\<lambda>x. x \<in> set ?w2) ?w1) = card ({x. x \<in> set ?w2} \<inter> set ?w1)"
    using d by (rule distinct_length_filter)
  also have "{x. x \<in> set ?w2} \<inter> set ?w1 = word_set a \<inter> word_set b"
    using s1 s2 by auto
  finally have i: "length (filter (\<lambda>x. x \<in> set ?w2) ?w1) = card (word_set a \<inter> word_set b)" .
  have "length (remdups (?w1 @ ?w2)) = card (set (?w1 @ ?w2))"
    by (rule length_remdups_card_conv)
  then have u: "length (remdups (?w1 @ ?w2)) = card (word_set a \<union> word_set b)"
    using s1 s2 by simp
  show ?thesis
    by (simp add: calculateStringSimilarity_def Let_def jaccard_percent_def i u)
qed

lemma add_to_domain_keys:
  "map fst (add_to_domain g s) =
     (if domain s \<in> set (map fst g) then map fst g else map fst g @ [domain s])"
  by (induction g s rule: add_to_domain.induct) auto

lemma add_to_domain_map_of:
  "map_of (add_to_domain g s) d =
     (if d = domain s
      then Some ((case map_of g d of None \<Rightarrow> [] | Some l \<Rightarrow> l) @ [s])
      else map_of g d)"
  by (induction g s rule: add_to_domain.induct) auto

lemma byDomain_snoc: "byDomain (xs @ [x]) = add_to_domain (byDomain xs) x"
  by (simp add: byDomain_def)

lemma byDomain_distinct: "distinct (map fst (byDomain xs))"
  by (induction xs rule: rev_induct) (simp_all add: byDomain_def add_to_domain_keys)

lemma filter_domain_empty:
  "d \<notin> domain ` set xs \<Longrightarrow> filter (\<lambda>s. domain s = d) xs = []"
  by (auto simp: filter_empty_conv)

lemma byDomain_map_of:
  "map_of (byDomain xs) d =
     (if d \<in> domain ` set xs then Some (filter (\<lambda>s. domain s = d) xs) else None)"
proof (induction xs rule: rev_induct)
  case Nil
  show ?case by (simp add: byDomain_def)
next
  case (snoc x xs)
  show ?case
    unfolding byDomain_snoc add_to_domain_map_of snoc.IH
    by (auto simp: filter_domain_empty)
qed

lemma byDomain_entries:
  "(d, specs) \<in> set (byDomain xs) \<longleftrightarrow>
     d \<in> domain ` set xs \<and> specs = filter (\<lambda>s. domain s = d) xs"
proof -
  have "(d, specs) \<in> set (byDomain xs) \<longleftrightarrow> map_of (byDomain xs) d = Some specs"
    using byDomain_distinct [of xs] by simp
  then show ?thesis by (auto simp: byDomain_map_of)
qed

lemma index_pairs_set:
  "(x, y) \<in> set (index_pairs xs) \<longleftrightarrow> (\<exists>i j. i < j \<and> j < length xs \<and> xs ! i = x \<and> xs ! j = y)"
proof (induction xs)
  case Nil
  show ?case by simp
next
  case (Cons a xs)
  have "(\<exists>i j. i < j \<and> j < length (a # xs) \<and> (a # xs) ! i = x \<and> (a # xs) ! j = y) \<longleftrightarrow>
      (x = a \<and> y \<in> set xs) \<or> (\<exists>i j. i < j \<and> j < length xs \<and> xs ! i = x \<and> xs ! j = y)"
    (is "?L \<longleftrightarrow> ?A \<or> ?B")
  proof
    assume ?L
    then obtain i j where ij: "i < j" "j < length (a # xs)" "(a # xs) ! i = x" "(a # xs) ! j = y"
      by blast
    from ij(1) obtain j' where j': "j = Suc j'" by (cases j) auto
    show "?A \<or> ?B"
    proof (cases i)
      case 0
      with ij j' show ?thesis by auto
    next
      case (Suc i')
      with ij j' have "i' < j' \<and> j' < length xs \<and> xs ! i' = x \<and> xs ! j' = y" by simp
      then show ?thesis by blast
    qed
  next
    assume "?A \<or> ?B"
    then show ?L
    proof
      assume ?A
      then obtain j where "j < length xs" "xs ! j = y" "x = a"
        by (auto simp: in_set_conv_nth)
      then have "0 < Suc j \<and> Suc j < length (a # xs) \<and> (a # xs) ! 0 = x \<and> (a # xs) ! Suc j = y"
        by simp
      then show ?L by blast
    next
      assume ?B
      then obtain i j where "i < j" "j < length xs" "xs ! i = x" "xs ! j = y" by blast
      then have "Suc i < Suc j \<and> Suc j < length (a # xs) \<and> (a # xs) ! Suc i = x \<and>
          (a # xs) ! Suc j = y"
        by simp
      then show ?L by blast
    qed
  qed
  with Cons.IH show ?case by auto
qed

lemma index_pairs_mem:
  "(x, y) \<in> set (index_pairs xs) \<Longrightarrow> x \<in> set xs \<and> y \<in> set xs"
  by (auto simp: index_pairs_set intro: nth_mem dest: less_trans)

lemma index_pairs_filter:
  "(x, y) \<in> set (index_pairs (filter P xs)) \<longleftrightarrow> (x, y) \<in> set (index_pairs xs) \<and> P x \<and> P y"
proof (induction xs)
  case Nil
  show ?case by simp
next
  case (Cons a xs)
  have "(x, y) \<in> set (index_pairs xs) \<Longrightarrow> y \<in> set xs" for x y
    by (rule index_pairs_mem [THEN conjunct2])
  with Cons.IH show ?case by auto
qed

lemma index_pairs_same_domain:
  "(x, y) \<in> set (index_pairs (filter (\<lambda>s. domain s = d) xs)) \<Longrightarrow> d \<in> domain ` set xs"
  using index_pairs_mem [of x y xs] by (auto simp: index_pairs_filter)

lemma find_candidates_set:
  "set (find_candidates xs) =
     make_candidate ` {p \<in> set (index_pairs xs). domain (fst p) = domain (snd p) \<and>
                        30 \<le> name_similarity p}"
proof -
  have "set (find_candidates xs) =
      (\<Union>d\<in>domain ` set xs. set (domain_candidates (filter (\<lambda>s. domain s = d) xs)))"
  proof (intro set_eqI iffI)
    fix c
    assume "c \<in> set (find_candidates xs)"
    then obtain d specs where "(d, specs) \<in> set (byDomain xs)" "c \<in> set (domain_candidates specs)"
      by (auto simp: find_candidates_def)
    then show "c \<in> (\<Union>d\<in>domain ` set xs.
        set (domain_candidates (filter (\<lambda>s. domain s = d) xs)))"
      by (auto simp: byDomain_entries)
  next
    fix c
    assume "c \<in> (\<Union>d\<in>domain ` set xs.
        set (domain_candidates (filter (\<lambda>s. domain s = d) xs)))"
    then obtain d where d: "d \<in> domain ` set xs"
        "c \<in> set (domain_candidates (filter (\<lambda>s. domain s = d) xs))"
      by blast
    then have "(d, filter (\<lambda>s. domain s = d) xs) \<in> set (byDomain xs)"
      by (simp add: byDomain_entries)
    with d(2) show "c \<in> set (find_candidates xs)"
      by (force simp: find_candidates_def)
  qed
  also have "\<dots> = make_candidate ` {p \<in> set (index_pairs xs). domain (fst p) = domain (snd p) \<and>
                        30 \<le> name_similarity p}"
  proof (intro set_eqI iffI)
    fix c
    assume "c \<in> (\<Union>d\<in>domain ` set xs. set (domain_candidates (filter (\<lambda>s. domain s = d) xs)))"
    then obtain d x y where "(x, y) \<in> set (index_pairs (filter (\<lambda>s. domain s = d) xs))"
        "30 \<le> name_similarity (x, y)" "c = make_candidate (x, y)"
      by (auto simp: domain_candidates_def)
    then have "(x, y) \<in> {p \<in> set (index_pairs xs).
        domain (fst p) = domain (snd p) \<and> 30 \<le> name_similarity p}"
        "c = make_candidate (x, y)"
      by (simp_all add: index_pairs_filter)
    then show "c \<in> make_candidate ` {p \<in> set (index_pairs xs).
        domain (fst p) = domain (snd p) \<and> 30 \<le> name_similarity p}"
      by blast
  next
    fix c
    assume "c \<in> make_candidate ` {p \<in> set (index_pairs xs).
        domain (fst p) = domain (snd p) \<and> 30 \<le> name_similarity p}"
    then obtain x y where p: "(x, y) \<in> set (index_pairs xs)" "domain x = domain y"
        "30 \<le> name_similarity (x, y)" "c = make_candidate (x, y)"
      by auto
    then have in_d: "(x, y) \<in> set (index_pairs (filter (\<lambda>s. domain s = domain x) xs))"
      by (simp add: index_pairs_filter)
    then have "domain x \<in> domain ` set xs" by (rule index_pairs_same_domain)
    moreover have "c \<in> set (domain_candidates (filter (\<lambda>s. domain s = domain x) xs))"
      using in_d p by (auto simp: domain_candidates_def)
    ultimately show "c \<in> (\<Union>d\<in>domain ` set xs.
        set (domain_candidates (filter (\<lambda>s. domain s = d) xs)))"
      by blast
  qed
  finally show ?thesis .
qed

lemma record_results_eq:
  "record_results batch groups rs =
     groups @ map (make_group batch)
       (filter flagged (takeWhile (\<lambda>r. flagged r \<longrightarrow> index_ok batch r) rs))"
  by (induction rs arbitrary: groups) auto

text \<open>
  C6, as stated, fails in its second half: when a flagged result of an Oracle answer
  carries a pairIndex outside the batch, reading the candidate throws, the batch is
  given up, and a later result of the same answer is not recorded although its verdict
  is true and its index is good.
\<close>

theorem verdict_lost_after_bad_index:
  "flagged (verdict 1 True 95) \<and> index_ok [cand_a, cand_b] (verdict 1 True 95) \<and>
   detect_batch (\<lambda>batch. Some [verdict 2 True 90, verdict 1 True 95]) [] [cand_a, cand_b] = []"
  by (simp add: detect_batch_def flagged_def index_ok_def verdict_def)

text \<open>
  C6, amended: a pair of spec entries (the earlier one first) becomes a candidate exactly
  when both are in the same domain and the Jaccard index of the word sets of their
  lower-cased primary names, split at white space, is at least 30 per cent. From the
  answer of the Oracle to a batch, a group is recorded for a result exactly when the
  result is flagged, that is, its verdict is true or its score is at least 85, and no
  flagged result with a pairIndex outside the batch stands at or before it in the
  answer; when every flagged result has a pairIndex inside the batch, the groups added
  are those of the flagged results, in order.
\<close>

theorem duplicate_detection:
  "(c \<in> set (find_candidates specTypes) \<longleftrightarrow>
      (\<exists>i j. i < j \<and> j < length specTypes \<and> spec1 c = specTypes ! i \<and> spec2 c = specTypes ! j) \<and>
      domain (spec1 c) = domain (spec2 c) \<and>
      30 \<le> jaccard_percent (primaryName (spec1 c)) (primaryName (spec2 c)) \<and>
      stringSimilarity c = jaccard_percent (primaryName (spec1 c)) (primaryName (spec2 c))) \<and>
   record_results batch groups rs =
     groups @ map (make_group batch)
       (filter flagged (takeWhile (\<lambda>r. flagged r \<longrightarrow> index_ok batch r) rs)) \<and>
   ((\<forall>r\<in>set rs. flagged r \<longrightarrow> index_ok batch r) \<longrightarrow>
      record_results batch groups rs = groups @ map (make_group batch) (filter flagged rs)) \<and>
   (flagged r \<longleftrightarrow> areDuplicates r \<or> 85 \<le> similarity r)"
proof -
  have sim: "name_similarity (x, y) = jaccard_percent (primaryName x) (primaryName y)" for x y
    by (simp add: name_similarity_def similarity_jaccard)
  have stage1: "c \<in> set (find_candidates specTypes) \<longleftrightarrow>
      (\<exists>i j. i < j \<and> j < length specTypes \<and> spec1 c = specTypes ! i \<and> spec2 c = specTypes ! j) \<and>
      domain (spec1 c) = domain (spec2 c) \<and>
      30 \<le> jaccard_percent (primaryName (spec1 c)) (primaryName (spec2 c)) \<and>
      stringSimilarity c = jaccard_percent (primaryName (spec1 c)) (primaryName (spec2 c))"
    (is "?L \<longleftrightarrow> ?R")
  proof
    assume ?L
    then obtain x y where xy: "(x, y) \<in> set (index_pairs specTypes)" "domain x = domain y"
        "30 \<le> name_similarity (x, y)" "c = make_candidate (x, y)"
      by (auto simp: find_candidates_set)
    from xy(1) obtain i j where "i < j" "j < length specTypes" "specTypes ! i = x"
        "specTypes ! j = y"
      by (auto simp: index_pairs_set)
    with xy show ?R
      by (auto simp: make_candidate_def sim)
  next
    assume r: ?R
    then obtain i j where ij: "i < j" "j < length specTypes" "spec1 c = specTypes ! i"
        "spec2 c = specTypes ! j"
      by blast
    then have p: "(spec1 c, spec2 c) \<in> set (index_pairs specTypes)"
      by (auto simp: index_pairs_set)
    have c: "c = make_candidate (spec1 c, spec2 c)"
      using r by (simp add: make_candidate_def sim)
    have "(spec1 c, spec2 c) \<in> {p \<in> set (index_pairs specTypes).
        domain (fst p) = domain (snd p) \<and> 30 \<le> name_similarity p}"
      using p r by (simp add: sim)
    then have "make_candidate (spec1 c, spec2 c) \<in> set (find_candidates specTypes)"
      unfolding find_candidates_set by (rule imageI)
    with c show ?L by simp
  qed
  have all_ok: "(\<forall>r\<in>set rs. flagged r \<longrightarrow> index_ok batch r) \<longrightarrow>
      record_results batch groups rs = groups @ map (make_group batch) (filter flagged rs)"
  proof
    assume "\<forall>r\<in>set rs. flagged r \<longrightarrow> index_ok batch r"
    then have tw: "takeWhile (\<lambda>r. flagged r \<longrightarrow> index_ok batch r) rs = rs"
      by (induction rs) auto
    show "record_results batch groups rs =
        groups @ map (make_group batch) (filter flagged rs)"
      by (simp only: record_results_eq tw)
  qed
  have fl: "flagged r \<longleftrightarrow> areDuplicates r \<or> 85 \<le> similarity r"
    by (simp add: flagged_def)
  from stage1 record_results_eq [of batch groups rs] all_ok fl show ?thesis
    by blast
qed

theorem duplicate_detection_witness:
  "cand_a \<in> set (find_candidates [cooling, total_cooling]) \<and>
   record_results [cand_a] [] [verdict 0 False 90] =
     [\<lparr>dg_similarity = 90, dg_reason = [], dg_specTypes = [cooling, total_cooling]\<rparr>] \<and>
   record_results [cand_a] [] [verdict 0 False 40] = []"
proof -
  have sim: "calculateStringSimilarity ''Cooling Capacity'' ''Total Cooling Capacity'' = 200 / 3"
    by (simp add: calculateStringSimilarity_def words_of_def split_ws.simps is_space_def
        toLowerCase_def toLowerCase_char_def char_of_def bit_0)
  then have j: "jaccard_percent ''Cooling Capacity'' ''Total Cooling Capacity'' = 200 / 3"
    by (simp add: similarity_jaccard)
  have f: "spec1 cand_a = cooling" "spec2 cand_a = total_cooling"
      "stringSimilarity cand_a = 200 / 3"
      "primaryName cooling = ''Cooling Capacity''"
      "primaryName total_cooling = ''Total Cooling Capacity''"
      "domain cooling = domain total_cooling"
    by (simp_all add: cand_a_def make_candidate_def name_similarity_def sim cooling_def
        total_cooling_def spec_entry_def)
  have pos: "\<exists>i j. i < j \<and> j < length [cooling, total_cooling] \<and>
      spec1 cand_a = [cooling, total_cooling] ! i \<and> spec2 cand_a = [cooling, total_cooling] ! j"
    by (rule exI [of _ 0], rule exI [of _ 1]) (simp add: f)
  have 1: "cand_a \<in> set (find_candidates [cooling, total_cooling])"
    using duplicate_detection [of cand_a "[cooling, total_cooling]"] pos f j by simp
  have ok: "\<forall>r\<in>set [verdict 0 False 90]. flagged r \<longrightarrow> index_ok [cand_a] r"
    by (simp add: index_ok_def verdict_def)
  have ok': "\<forall>r\<in>set [verdict 0 False 40]. flagged r \<longrightarrow> index_ok [cand_a] r"
    by (simp add: index_ok_def verdict_def)
  have 2: "record_results [cand_a] [] [verdict 0 False 90] =
      [] @ map (make_group [cand_a]) (filter flagged [verdict 0 False 90])"
    using duplicate_detection [where batch = "[cand_a]" and rs = "[verdict 0 False 90]"
        and groups = "[]"] ok by blast
  have 3: "record_results [cand_a] [] [verdict 0 False 40] =
      [] @ map (make_group [cand_a]) (filter flagged [verdict 0 False 40])"
    using duplicate_detection [where batch = "[cand_a]" and rs = "[verdict 0 False 40]"
        and groups = "[]"] ok' by blast
  have g90: "record_results [cand_a] [] [verdict 0 False 90] =
     [\<lparr>dg_similarity = 90, dg_reason = [], dg_specTypes = [cooling, total_cooling]\<rparr>]"
    unfolding 2 by (simp add: flagged_def verdict_def make_group_def f)
  have g40: "record_results [cand_a] [] [verdict 0 False 40] = []"
    unfolding 3 by (simp add: flagged_def verdict_def)
  from 1 g90 g40 show ?thesis by blast
qed

section \<open>Restart from a checkpoint\<close>

lemma batches_two: "batches 20 [a, b] = [[a, b]]"
  by (simp add: batches.simps)

lemma concat_batches: "0 < n \<Longrightarrow> concat (batches n xs) = xs"
proof (induction n xs rule: batches.induct)
  case (1 n xs)
  show ?case
  proof (cases "xs = []")
    case True
    then show ?thesis by (simp add: batches.simps)
  next
    case False
    with 1 have "concat (batches n (drop n xs)) = drop n xs" by simp
    with False 1(2) show ?thesis
      by (subst batches.simps) simp
  qed
qed

lemma classify_batch_calls:
  "classify_calls (classify_batch classify r batch) = classify_calls r @ map unit_id batch"
  by (simp add: classify_batch_def Let_def)

lemma classify_batches_calls:
  "classify_calls (foldl (classify_batch classify) r bs) =
     classify_calls r @ map unit_id (concat bs)"
  by (induction bs arbitrary: r) (simp_all add: classify_batch_calls)

lemma phase1_calls:
  assumes "\<not> classificationComplete (cp r)" "unmapped_units allUnits \<noteq> []"
  shows "classify_calls (phase1 classify allUnits r) =
     classify_calls r @ map unit_id (unmapped_units allUnits)"
  using assms by (simp add: phase1_def Let_def classify_batches_calls concat_batches)

lemma completed_groups_skipped:
  "g \<in> set (groupsNeedingConversions c allUnits unitGroups) \<Longrightarrow>
   group_id g \<notin> set (conversionsGroupsCompleted c)"
  by (simp add: groupsNeedingConversions_def)

lemma completed_units_skipped:
  "currentConversionGroupId c = Some (group_id g) \<Longrightarrow>
   u \<in> set (unitsToProcess c g groupUnits) \<Longrightarrow> unit_id u \<notin> set (unitsCompleted c)"
  by (simp add: unitsToProcess_def)

text \<open>
  C3 fails on the code in its first part. The checkpoint that phase 1 writes after a
  batch records the units classified so far, with classificationComplete still false. A
  run that restarts from that checkpoint sends every unmapped unit to the Oracle again,
  the recorded ones included, and records their ids a second time: here the first run
  over the units u1 and u2 writes the checkpoint with the group Flow holding u1 and u2,
  and the run restarted from it classifies u1 and u2 again and leaves Flow with u1, u2,
  u1, u2. (Groups in conversionsGroupsCompleted and units in unitsCompleted are skipped,
  as the two lemmas above say.)
\<close>

theorem restart_reclassifies:
  "saved (phase1 flow_oracle [unit_of ''u1'', unit_of ''u2''] (start initial_checkpoint)) ! 0 =
     partial_checkpoint \<and>
   classify_calls (phase1 flow_oracle [unit_of ''u1'', unit_of ''u2''] (start partial_checkpoint)) =
     [''u1'', ''u2''] \<and>
   groupsClassified (cp (phase1 flow_oracle [unit_of ''u1'', unit_of ''u2'']
     (start partial_checkpoint))) = [(''Flow'', [''u1'', ''u2'', ''u1'', ''u2''])]"
  by (simp add: phase1_def unmapped_units_def unit_of_def batches_two classify_batch_def
      record_group_def flow_oracle_def start_def initial_checkpoint_def partial_checkpoint_def
      Let_def)

end
